theory Spec2Isabelle
  imports Complex_Main "HOL-Library.Product_Lexorder"
begin

section \<open>Common vocabulary\<close>

text \<open>
  The exception classes that the verified code of \<^verbatim>\<open>template/utils/hivemind.py\<close> raises,
  catches or lets through. Each constructor stands for a Python class together with its
  subclasses. \<open>InvalidStateError\<close> is \<^verbatim>\<open>asyncio.InvalidStateError\<close>;
  \<open>FutureInvalidStateError\<close> is the class of the same name of \<^verbatim>\<open>concurrent.futures\<close>,
  which is a different class. \<open>Exception\<close> is a bare \<^verbatim>\<open>Exception(message)\<close>.
\<close>

datatype exc =
    AllreduceException
  | MatchmakingException
  | AssertionError
  | StopAsyncIteration
  | CancelledError
  | InvalidStateError
  | P2PHandlerError
  | P2PDaemonError
  | FutureInvalidStateError
  | TimeoutError
  | ValueError
  | IndexError
  | KeyError
  | AttributeError
  | RuntimeError
  | ZeroDivisionError
  | StopIteration
  | KeyboardInterrupt
  | Exception

section \<open>DTGradientAverager: accumulating gradients\<close>

text \<open>
  A tensor of a fixed shape is an element of a real vector space \<open>'t\<close>:
  \<^verbatim>\<open>add_(other, alpha)\<close> is \<open>x + alpha *\<^sub>R other\<close>, \<^verbatim>\<open>mul_(c)\<close> is \<open>c *\<^sub>R x\<close>,
  \<^verbatim>\<open>zeros_like\<close> and \<^verbatim>\<open>zero_\<close> give \<open>0\<close>. Floats are read as reals, so rounding is not
  part of the model. A parameter carries its data and its \<^verbatim>\<open>.grad\<close>, which may be \<^verbatim>\<open>None\<close>.
\<close>

record 't parameter =
  data :: 't
  grad :: "'t option"

text \<open>
  The fields of \<^verbatim>\<open>DTGradientAverager\<close> (leading underscores dropped);
  \<open>averaged_tensors\<close> is the shared buffer handed out by \<^verbatim>\<open>get_tensors()\<close>.
\<close>

record 't grad_averager =
  parameters :: "'t parameter list"
  reuse_grad_buffers :: bool
  warn :: bool
  local_samples_accumulated :: int
  local_times_accumulated :: int
  anchor_batch_size :: "int option"
  local_accumulators :: "'t list option"
  accumulators_used_in_step :: bool
  new_averaged_grads :: bool
  averaged_tensors :: "'t list"

text \<open>
  One step of the generator \<^verbatim>\<open>_grads_from_parameters\<close>: a missing gradient is replaced by
  zeros, then the gradient is yielded.
\<close>

definition ensure_grad :: "'t::zero parameter \<Rightarrow> 't parameter" where
  "ensure_grad p = (case grad p of None \<Rightarrow> p\<lparr>grad := Some 0\<rparr> | Some g \<Rightarrow> p)"

definition current_grad :: "'t::zero parameter \<Rightarrow> 't" where
  "current_grad p = (case grad p of None \<Rightarrow> 0 | Some g \<Rightarrow> g)"

text \<open>
  The loop of \<^verbatim>\<open>accumulate_grads_\<close>,
  \<^verbatim>\<open>for grad_buf, grad_acc in zip(self._grads_from_parameters(), self._grad_accumulators())\<close>,
  with \<^verbatim>\<open>grad_acc.add_(grad_buf, alpha=alpha)\<close> as its body. \<^verbatim>\<open>zip\<close> advances the generator
  of gradients first, so the parameter at the position where the accumulators run out has
  already had its gradient created.
\<close>

fun accumulate_loop ::
  "real \<Rightarrow> 't::real_vector parameter list \<Rightarrow> 't list \<Rightarrow> 't parameter list \<times> 't list" where
  "accumulate_loop alpha [] accs = ([], accs)"
| "accumulate_loop alpha (p # ps) [] = (ensure_grad p # ps, [])"
| "accumulate_loop alpha (p # ps) (a # accs) =
     (case accumulate_loop alpha ps accs of
        (ps', accs') \<Rightarrow> (ensure_grad p # ps', (a + alpha *\<^sub>R current_grad p) # accs'))"

text \<open>
  \<^verbatim>\<open>accumulate_grads_(batch_size)\<close>. The result is the exception raised, if any, and the
  averager as the call leaves it. The counters and the anchor are written before
  \<^verbatim>\<open>alpha = float(batch_size) / self._anchor_batch_size\<close> is computed, which raises
  \<^verbatim>\<open>ZeroDivisionError\<close> for an anchor of zero. The assertion of \<^verbatim>\<open>_grad_accumulators\<close> runs when
  \<^verbatim>\<open>zip\<close> first advances that generator, that is only if there is a parameter.
\<close>

definition accumulate_grads ::
  "'t::real_vector grad_averager \<Rightarrow> int \<Rightarrow> exc option \<times> 't grad_averager" where
  "accumulate_grads st batch_size =
     (let st1 = (if accumulators_used_in_step st \<and> warn st
                 then st\<lparr>accumulators_used_in_step := False\<rparr> else st);
          anchor = (case anchor_batch_size st1 of None \<Rightarrow> batch_size | Some a \<Rightarrow> a);
          st2 = st1\<lparr>anchor_batch_size := Some anchor,
                    local_samples_accumulated := local_samples_accumulated st1 + batch_size,
                    local_times_accumulated := local_times_accumulated st1 + 1\<rparr>
      in if reuse_grad_buffers st2 then (None, st2)
         else if anchor = 0 then (Some ZeroDivisionError, st2)
         else
           (case parameters st2 of
              [] \<Rightarrow> (None, st2)
            | p # ps \<Rightarrow>
                (case local_accumulators st2 of
                   None \<Rightarrow> (Some AssertionError, st2\<lparr>parameters := ensure_grad p # ps\<rparr>)
                 | Some accs \<Rightarrow>
                     (case accumulate_loop (real_of_int batch_size / real_of_int anchor)
                             (p # ps) accs of
                        (ps', accs') \<Rightarrow>
                          (None, st2\<lparr>parameters := ps', local_accumulators := Some accs'\<rparr>)))))"

text \<open>
  \<^verbatim>\<open>reset_accumulated_grads_\<close>: the flags and counters are cleared first, then every buffer
  yielded by \<^verbatim>\<open>_grad_accumulators\<close> is zeroed (the gradients of the parameters when
  \<^verbatim>\<open>reuse_grad_buffers\<close> is set, the local accumulators otherwise).
\<close>

definition reset_accumulated_grads ::
  "'t::zero grad_averager \<Rightarrow> exc option \<times> 't grad_averager" where
  "reset_accumulated_grads st =
     (let st1 = st\<lparr>accumulators_used_in_step := False,
                   local_samples_accumulated := 0,
                   local_times_accumulated := 0,
                   anchor_batch_size := None\<rparr>
      in if (local_accumulators st1 = None) \<noteq> reuse_grad_buffers st1
         then (Some AssertionError, st1)
         else if reuse_grad_buffers st1
         then (None, st1\<lparr>parameters := map (\<lambda>p. p\<lparr>grad := Some 0\<rparr>) (parameters st1)\<rparr>)
         else (None, st1\<lparr>local_accumulators :=
                          map_option (map (\<lambda>_. 0)) (local_accumulators st1)\<rparr>))"

text \<open>
  The loop of \<^verbatim>\<open>load_accumulators_into_averager_\<close>:
  \<^verbatim>\<open>averaged_grad.copy_(grad_acc).mul_(grad_scale)\<close> for each pair of
  \<^verbatim>\<open>zip(self._grad_accumulators(), averaged_grads)\<close>; buffers past the end of the
  accumulators keep their contents.
\<close>

fun load_loop :: "real \<Rightarrow> 't::real_vector list \<Rightarrow> 't list \<Rightarrow> 't list" where
  "load_loop grad_scale (a # accs) (v # avgs) = (grad_scale *\<^sub>R a) # load_loop grad_scale accs avgs"
| "load_loop grad_scale accs avgs = avgs"

definition load_accumulators_into_averager ::
  "'t::real_vector grad_averager \<Rightarrow> exc option \<times> 't grad_averager" where
  "load_accumulators_into_averager st =
     (let grad_scale = (if local_times_accumulated st \<noteq> 0
                        then 1 / real_of_int (local_times_accumulated st) else 0)
      in if (local_accumulators st = None) \<noteq> reuse_grad_buffers st
         then (Some AssertionError, st)
         else
           (case local_accumulators st of
              Some accs \<Rightarrow>
                (None, st\<lparr>averaged_tensors := load_loop grad_scale accs (averaged_tensors st)\<rparr>)
            | None \<Rightarrow>
                (let k = Suc (length (averaged_tensors st));
                     ps = map ensure_grad (take k (parameters st)) @ drop k (parameters st)
                 in (None, st\<lparr>parameters := ps,
                              averaged_tensors :=
                                load_loop grad_scale (map current_grad (parameters st))
                                  (averaged_tensors st)\<rparr>))))"

text \<open>
  The training loop's backward pass, which stores one gradient per parameter in
  \<^verbatim>\<open>param.grad\<close> before \<^verbatim>\<open>accumulate_grads_\<close> is called.
\<close>

definition backward :: "'t list \<Rightarrow> 't grad_averager \<Rightarrow> 't grad_averager" where
  "backward gs st =
     st\<lparr>parameters := map2 (\<lambda>p g. p\<lparr>grad := Some g\<rparr>) (parameters st) gs\<rparr>"

text \<open>
  The scenario of the round trip: after a reset, three backward passes leave the gradients
  \<open>g1\<close>, \<open>g2\<close>, \<open>g3\<close>, each followed by \<^verbatim>\<open>accumulate_grads_\<close> with batch sizes 8, 8
  and 16, and then the accumulators are loaded into the averager.
\<close>

definition accumulate_8_8_16 ::
  "'t::real_vector grad_averager \<Rightarrow> 't list \<Rightarrow> 't list \<Rightarrow> 't list \<Rightarrow> 't grad_averager" where
  "accumulate_8_8_16 st0 g1 g2 g3 =
     (let s0 = snd (reset_accumulated_grads st0);
          s1 = snd (accumulate_grads (backward g1 s0) 8);
          s2 = snd (accumulate_grads (backward g2 s1) 8);
          s3 = snd (accumulate_grads (backward g3 s2) 16)
      in snd (load_accumulators_into_averager s3))"

text \<open>An averager over one scalar parameter, as \<^verbatim>\<open>__init__\<close> leaves it.\<close>

definition example_averager :: "real grad_averager" where
  "example_averager =
     \<lparr>parameters = [\<lparr>data = 0, grad = None\<rparr>],
      reuse_grad_buffers = False, warn = True,
      local_samples_accumulated = 0, local_times_accumulated = 0,
      anchor_batch_size = None, local_accumulators = Some [0],
      accumulators_used_in_step = False, new_averaged_grads = False,
      averaged_tensors = [0]\<rparr>"

text \<open>The same averager with gradient 3, anchor 8 and the given accumulator and counters.\<close>

definition example_accumulated :: "real \<Rightarrow> int \<Rightarrow> int \<Rightarrow> real grad_averager" where
  "example_accumulated acc smp tms =
     \<lparr>parameters = [\<lparr>data = 0, grad = Some 3\<rparr>],
      reuse_grad_buffers = False, warn = True,
      local_samples_accumulated = smp, local_times_accumulated = tms,
      anchor_batch_size = Some 8, local_accumulators = Some [acc],
      accumulators_used_in_step = False, new_averaged_grads = False,
      averaged_tensors = [0]\<rparr>"

section \<open>StepControl\<close>

text \<open>
  \<^verbatim>\<open>StepControl\<close> belongs to the hivemind library; it is a future (\<^verbatim>\<open>MPFuture\<close>) with an
  attached trigger. The model keeps what the verified code reads and writes: the state of
  the future, whether a trigger is attached and whether it has fired, the weight, the stage
  and the retry flag. Two fields are bookkeeping of the model: \<open>resolutions\<close> counts how
  often a terminal state was written, and \<open>rejected\<close> lists the calls of \<^verbatim>\<open>set_result\<close> and
  \<^verbatim>\<open>set_exception\<close> that found the future already done.
\<close>

datatype 'r future_state = Pending | Finished 'r | Failed exc | Cancelled

datatype set_call = SetResult | SetException

datatype averaging_stage =
  IDLE | LOOKING_FOR_GROUP | AWAITING_TRIGGER | RUNNING_ALLREDUCE | FINISHED

record 'g step_control =
  future :: "'g future_state"
  trigger :: "bool option"
  control_weight :: real
  stage :: averaging_stage
  allow_retries :: bool
  resolutions :: nat
  rejected :: "set_call list"

definition is_done :: "'g step_control \<Rightarrow> bool" where
  "is_done c = (future c \<noteq> Pending)"

text \<open>
  A future that is done refuses a further result: the call raises the library's
  invalid-state exception (\<open>ise\<close>, a parameter, since the library decides its class) and
  leaves the terminal state as it is.
\<close>

definition set_result :: "exc \<Rightarrow> 'g \<Rightarrow> 'g step_control \<Rightarrow> exc option \<times> 'g step_control" where
  "set_result ise v c =
     (if is_done c then (Some ise, c\<lparr>rejected := rejected c @ [SetResult]\<rparr>)
      else (None, c\<lparr>future := Finished v, resolutions := Suc (resolutions c)\<rparr>))"

definition set_exception ::
  "exc \<Rightarrow> exc \<Rightarrow> 'g step_control \<Rightarrow> exc option \<times> 'g step_control" where
  "set_exception ise e c =
     (if is_done c then (Some ise, c\<lparr>rejected := rejected c @ [SetException]\<rparr>)
      else (None, c\<lparr>future := Failed e, resolutions := Suc (resolutions c)\<rparr>))"

text \<open>\<^verbatim>\<open>step.cancel()\<close> called by the owner of the handle: it cancels a pending step and its trigger.\<close>

definition owner_cancel :: "'g step_control \<Rightarrow> 'g step_control" where
  "owner_cancel c =
     (if is_done c then c
      else c\<lparr>future := Cancelled, trigger := map_option (\<lambda>_. True) (trigger c),
             resolutions := Suc (resolutions c)\<rparr>)"

text \<open>\<^verbatim>\<open>attach\<close>, the property \<^verbatim>\<open>triggered\<close> and \<^verbatim>\<open>allow_allreduce\<close>; each asserts on the trigger.\<close>

definition attach :: "'g step_control \<Rightarrow> exc + 'g step_control" where
  "attach c = (case trigger c of None \<Rightarrow> Inr (c\<lparr>trigger := Some False\<rparr>)
               | Some b \<Rightarrow> Inl AssertionError)"

definition triggered :: "'g step_control \<Rightarrow> exc + bool" where
  "triggered c = (case trigger c of None \<Rightarrow> Inl AssertionError | Some b \<Rightarrow> Inr b)"

definition allow_allreduce :: "'g step_control \<Rightarrow> exc + 'g step_control" where
  "allow_allreduce c = (case trigger c of None \<Rightarrow> Inl AssertionError
                        | Some b \<Rightarrow> Inr (c\<lparr>trigger := Some True\<rparr>))"

section \<open>DTGradientAverager.step\<close>

text \<open>
  Keyword arguments are a list of names with their values, \<open>None\<close> for Python's \<^verbatim>\<open>None\<close>.
  \<^verbatim>\<open>schedule_step\<close> asserts that no weight is given and hands over to the \<^verbatim>\<open>step\<close> of the
  base class, whose outcome (\<open>base_step\<close>) depends on the network and is a parameter.
\<close>

type_synonym 'v kwargs = "(string \<times> 'v option) list"

definition schedule_step ::
  "(real option \<Rightarrow> 'v kwargs \<Rightarrow> exc + 'g step_control) \<Rightarrow> real option \<Rightarrow> 'v kwargs
     \<Rightarrow> exc + 'g step_control" where
  "schedule_step base_step timeout kwargs =
     (case map_of kwargs ''weight'' of
        Some (Some w) \<Rightarrow> Inl AssertionError
      | _ \<Rightarrow> base_step timeout kwargs)"

datatype 'g step_return = Gathered 'g | Control "'g step_control"

text \<open>
  \<^verbatim>\<open>DTGradientAverager.step\<close>. The result is what the call returns or raises, the averager,
  and the control handle as the call leaves it. \<open>await_result\<close> stands for
  \<^verbatim>\<open>control.result(timeout)\<close>, the outcome of the round.
\<close>

definition step ::
  "(real option \<Rightarrow> 'v kwargs \<Rightarrow> exc + 'g step_control) \<Rightarrow>
   (real option \<Rightarrow> 'g step_control \<Rightarrow> exc + 'g) \<Rightarrow>
   't::real_vector grad_averager \<Rightarrow> real option \<Rightarrow> bool \<Rightarrow> 'g step_control option \<Rightarrow>
   real option \<Rightarrow> bool \<Rightarrow> 'v kwargs \<Rightarrow>
   (exc + 'g step_return) \<times> 't grad_averager \<times> 'g step_control option" where
  "step base_step await_result st weight reset_accumulators control timeout wait kwargs =
     (case (case control of
              None \<Rightarrow> schedule_step base_step timeout kwargs
            | Some c \<Rightarrow> if length kwargs > 0 then Inl RuntimeError else Inr c) of
        Inl e \<Rightarrow> (Inl e, st, control)
      | Inr c \<Rightarrow>
          (case triggered c of
             Inl e \<Rightarrow> (Inl e, st, Some c)
           | Inr True \<Rightarrow> (Inl AssertionError, st, Some c)
           | Inr False \<Rightarrow>
               (case load_accumulators_into_averager st of
                  (Some e, st1) \<Rightarrow> (Inl e, st1, Some c)
                | (None, st1) \<Rightarrow>
                    (let st2 = st1\<lparr>accumulators_used_in_step := True,
                                   new_averaged_grads := True\<rparr>;
                         c1 = c\<lparr>control_weight :=
                                  (case weight of
                                     None \<Rightarrow> real_of_int (local_samples_accumulated st2)
                                   | Some w \<Rightarrow> w)\<rparr>
                     in case (if reset_accumulators then reset_accumulated_grads st2
                              else (None, st2)) of
                          (Some e, st3) \<Rightarrow> (Inl e, st3, Some c1)
                        | (None, st3) \<Rightarrow>
                            (case allow_allreduce c1 of
                               Inl e \<Rightarrow> (Inl e, st3, Some c1)
                             | Inr c2 \<Rightarrow>
                                 if wait
                                 then (case await_result timeout c2 of
                                         Inl e \<Rightarrow> (Inl e, st3, Some c2)
                                       | Inr g \<Rightarrow> (Inr (Gathered g), st3, Some c2))
                                 else (Inr (Control c2), st3, Some c2))))))"

section \<open>DTAverager._step_custom\<close>

text \<open>
  One pass through the body of \<^verbatim>\<open>while not step.done()\<close>, as the environment decides it:
  the owner's cancellation is seen right after \<^verbatim>\<open>asyncio.wait\<close>; awaiting the matchmaking
  task raises; no group is found; the all-reduce raises (also \<^verbatim>\<open>asyncio.wait_for\<close> timing
  out); or the all-reduce returns the gathered data. \<open>cancelled_meanwhile\<close> says that the
  owner cancelled the step while the pass was awaiting, \<open>late\<close> that
  \<^verbatim>\<open>get_dht_time() >= step.deadline\<close> holds when the handler asks.
\<close>

datatype 'g attempt_body =
    CancelSeen
  | MatchmakingRaised exc
  | NoGroup
  | AllreduceRaised exc
  | AllreduceReturned 'g

record 'g attempt =
  body :: "'g attempt_body"
  cancelled_meanwhile :: bool
  late :: bool

text \<open>The classes named by the \<^verbatim>\<open>except\<close> clause inside the loop.\<close>

definition caught_in_loop :: "exc \<Rightarrow> bool" where
  "caught_in_loop e =
     (e \<in> set [AllreduceException, MatchmakingException, AssertionError, StopAsyncIteration,
               CancelledError, InvalidStateError, P2PHandlerError, P2PDaemonError])"

text \<open>The body of that \<^verbatim>\<open>except\<close> clause: give up and record the exception, or retry.\<close>

definition handle_failure ::
  "exc \<Rightarrow> exc \<Rightarrow> bool \<Rightarrow> 'g step_control \<Rightarrow> exc option \<times> 'g step_control" where
  "handle_failure ise e is_late c =
     (if is_done c \<or> \<not> allow_retries c \<or> is_late
      then (if \<not> is_done c then set_exception ise e c else (None, c))
      else (None, c))"

definition raise_in_loop ::
  "exc \<Rightarrow> exc \<Rightarrow> bool \<Rightarrow> 'g step_control \<Rightarrow> exc option \<times> 'g step_control" where
  "raise_in_loop ise e is_late c =
     (if caught_in_loop e then handle_failure ise e is_late c else (Some e, c))"

definition meanwhile :: "'g attempt \<Rightarrow> 'g step_control \<Rightarrow> 'g step_control" where
  "meanwhile a c = (if cancelled_meanwhile a then owner_cancel c else c)"

text \<open>
  One pass: the exception that leaves the inner \<^verbatim>\<open>try\<close>, if any, and the step afterwards.
  \<^verbatim>\<open>step.set_result\<close> is called on whatever the all-reduce returns, without asking
  \<^verbatim>\<open>step.done()\<close> first.
\<close>

definition attempt_once ::
  "exc \<Rightarrow> 'g attempt \<Rightarrow> 'g step_control \<Rightarrow> exc option \<times> 'g step_control" where
  "attempt_once ise a c0 =
     (let c = c0\<lparr>stage := LOOKING_FOR_GROUP\<rparr>
      in case body a of
           CancelSeen \<Rightarrow> raise_in_loop ise CancelledError (late a) (owner_cancel c)
         | MatchmakingRaised e \<Rightarrow> raise_in_loop ise e (late a) (meanwhile a c)
         | NoGroup \<Rightarrow> raise_in_loop ise AllreduceException (late a) (meanwhile a c)
         | AllreduceRaised e \<Rightarrow>
             raise_in_loop ise e (late a) (meanwhile a (c\<lparr>stage := RUNNING_ALLREDUCE\<rparr>))
         | AllreduceReturned g \<Rightarrow>
             (case set_result ise g (meanwhile a (c\<lparr>stage := RUNNING_ALLREDUCE\<rparr>)) of
                (None, c') \<Rightarrow> (None, c')
              | (Some e, c') \<Rightarrow> raise_in_loop ise e (late a) c'))"

text \<open>
  The \<^verbatim>\<open>while\<close> loop over the passes the environment provides. \<open>None\<close> means that the
  loop is still running when they are used up.
\<close>

fun step_loop ::
  "exc \<Rightarrow> 'g attempt list \<Rightarrow> 'g step_control \<Rightarrow> (exc option \<times> 'g step_control) option" where
  "step_loop ise [] c = (if is_done c then Some (None, c) else None)"
| "step_loop ise (a # rest) c =
     (if is_done c then Some (None, c)
      else (case attempt_once ise a c of
              (Some e, c') \<Rightarrow> Some (Some e, c')
            | (None, c') \<Rightarrow> step_loop ise rest c'))"

text \<open>
  \<^verbatim>\<open>_step_custom\<close>: attach the trigger, publish it through \<^verbatim>\<open>future_for_init\<close> (which raises
  if that future is done already), run the loop; then the outer \<^verbatim>\<open>except BaseException\<close>
  and the \<^verbatim>\<open>finally\<close> block. The result is the exception the coroutine ends with, if any,
  and the step.
\<close>

definition step_custom ::
  "exc \<Rightarrow> bool \<Rightarrow> 'g attempt list \<Rightarrow> 'g step_control
     \<Rightarrow> (exc option \<times> 'g step_control) option" where
  "step_custom ise init_done attempts c =
     (case (case attach c of
              Inl e \<Rightarrow> Some (Some e, c)
            | Inr c1 \<Rightarrow> if init_done then Some (Some ise, c1) else step_loop ise attempts c1) of
        None \<Rightarrow> None
      | Some (raised, c2) \<Rightarrow>
          (let c3 = (case raised of
                       None \<Rightarrow> c2
                     | Some e \<Rightarrow> if \<not> is_done c2 then snd (set_exception ise e c2) else c2);
               c4 = c3\<lparr>stage := FINISHED\<rparr>;
               c5 = (if \<not> is_done c4 then snd (set_exception ise RuntimeError c4) else c4)
           in Some (raised, c5)))"

text \<open>A fresh handle, as \<^verbatim>\<open>StepControl(...)\<close> builds it, with retries allowed.\<close>

definition fresh_step :: "'g step_control" where
  "fresh_step =
     \<lparr>future = Pending, trigger = None, control_weight = 1, stage = IDLE,
      allow_retries = True, resolutions = 0, rejected = []\<rparr>"

section \<open>DTStateAverager.load_final_state_from_peers\<close>

text \<open>
  The value found under \<^verbatim>\<open>"epoch"\<close> in the downloaded metadata; \<open>PyNone\<close> also stands for a
  missing key, which \<^verbatim>\<open>metadata.get\<close> reads as \<^verbatim>\<open>None\<close>. Python's \<^verbatim>\<open>bool\<close> is a subclass of
  \<^verbatim>\<open>int\<close>, so \<^verbatim>\<open>isinstance(True, int)\<close> holds and \<^verbatim>\<open>True\<close> compares as 1.
\<close>

datatype pyval = PyInt int | PyBool bool | PyFloat real | PyStr string | PyNone



text \<open>
  An element of \<^verbatim>\<open>metadata["optimizer_metadata"]\<close> as \<^verbatim>\<open>load_optimizer_state\<close> reads it:
  a tensor given by an integer index, a plain value, or anything else (which is skipped).
\<close>

datatype 'v flat_elem = TensorElem int | ValueElem 'v | OtherElem


record 'v state_metadata =
  epoch :: pyval
  optimizer_metadata :: "'v flat_elem list option"







section \<open>DTStateAverager: downloading the state\<close>

text \<open>
  The \<^verbatim>\<open>if timeout is not None\<close> at the head of
  \<^verbatim>\<open>_load_state_from_peers_with_latest_state\<close>: the timeout for each message of the download
  stream. A timeout is \<open>None\<close> (wait without limit) or a number of
  seconds. The caller's value only decides whether there is one.
\<close>

definition chunk_timeout :: "real option \<Rightarrow> real option \<Rightarrow> real \<Rightarrow> real option" where
  "chunk_timeout timeout next_chunk_timeout request_timeout =
     (case timeout of
        None \<Rightarrow> None
      | Some t \<Rightarrow> Some (case next_chunk_timeout of Some n \<Rightarrow> n | None \<Rightarrow> request_timeout))"

text \<open>
  A message of the \<^verbatim>\<open>rpc_download_state\<close> stream: its metadata if it carries any, whether
  its tensor part starts a new tensor (\<^verbatim>\<open>tensor_part.dtype\<close> is set), and the part. The
  stream is the list of what happens on it: a message arrives after some seconds, or the
  stream raises. A downloaded tensor is kept as the list of its parts.
\<close>

record ('md, 'c) download_message =
  msg_metadata :: "'md option"
  starts_tensor :: bool
  tensor_part :: 'c

datatype ('md, 'c) stream_event = Arrives real "('md, 'c) download_message" | Breaks exc

text \<open>
  The loop \<^verbatim>\<open>async for message in aiter_with_timeout(stream, timeout=timeout)\<close> with its
  body and the statement after it. \<^verbatim>\<open>aiter_with_timeout\<close> (hivemind) awaits each message
  under the timeout and raises \<^verbatim>\<open>TimeoutError\<close> when it takes longer. The metadata read so
  far is part of the result also when the loop raises, because the variable outlives the
  \<^verbatim>\<open>try\<close>.
\<close>

fun receive_state ::
  "real option \<Rightarrow> ('md, 'c) stream_event list \<Rightarrow> 'md option \<Rightarrow> 'c list \<Rightarrow> 'c list list
     \<Rightarrow> exc option \<times> 'md option \<times> 'c list list" where
  "receive_state timeout [] metadata current_tensor_parts tensors =
     (None, metadata,
      if current_tensor_parts \<noteq> [] then tensors @ [current_tensor_parts] else tensors)"
| "receive_state timeout (Breaks e # events) metadata current_tensor_parts tensors =
     (Some e, metadata, tensors)"
| "receive_state timeout (Arrives delay message # events) metadata current_tensor_parts tensors =
     (if (case timeout of None \<Rightarrow> False | Some t \<Rightarrow> t < delay)
      then (Some TimeoutError, metadata, tensors)
      else
        (let metadata' = (case msg_metadata message of Some m \<Rightarrow> Some m | None \<Rightarrow> metadata)
         in if starts_tensor message \<and> current_tensor_parts \<noteq> []
            then receive_state timeout events metadata' [tensor_part message]
                   (tensors @ [current_tensor_parts])
            else receive_state timeout events metadata'
                   (current_tensor_parts @ [tensor_part message]) tensors))"

text \<open>The classes that \<^verbatim>\<open>except Exception\<close> does not catch.\<close>

definition is_exception :: "exc \<Rightarrow> bool" where
  "is_exception e = (e \<noteq> CancelledError \<and> e \<noteq> KeyboardInterrupt)"

text \<open>
  The loop over the peers in priority order. \<open>download peer\<close> is what
  \<^verbatim>\<open>await stub.rpc_download_state(...)\<close> gives for that peer: an exception or the stream.
  The result is the exception that leaves the loop, if any, and the value passed to
  \<^verbatim>\<open>future.set_result\<close>, if the loop got that far.
\<close>

fun try_peers ::
  "real option \<Rightarrow> 'p \<Rightarrow> ('p \<Rightarrow> exc + ('md, 'c) stream_event list) \<Rightarrow> 'p list \<Rightarrow> 'md option
     \<Rightarrow> exc option \<times> ('md \<times> 'c list list) option" where
  "try_peers timeout self download [] metadata = (None, None)"
| "try_peers timeout self download (peer # peers) metadata =
     (if peer = self then try_peers timeout self download peers metadata
      else
        (case download peer of
           Inl e \<Rightarrow> (if is_exception e then try_peers timeout self download peers metadata
                     else (Some e, None))
         | Inr events \<Rightarrow>
             (case receive_state timeout events metadata [] [] of
                (Some e, metadata', tensors) \<Rightarrow>
                  (if is_exception e then try_peers timeout self download peers metadata'
                   else (Some e, None))
              | (None, None, tensors) \<Rightarrow> try_peers timeout self download peers None
              | (None, Some m, tensors) \<Rightarrow> (None, Some (m, tensors)))))"

text \<open>
  The list comprehension that collects the peers whose published progress is at
  \<open>global_epoch\<close>. An entry is the \<^verbatim>\<open>value\<close> of a record of the progress tracker, possibly
  \<^verbatim>\<open>None\<close>. \<open>epoch_of\<close> is \<^verbatim>\<open>LocalTrainingProgress.parse_obj(value).epoch\<close>, a parameter
  because the validation is pydantic's and may raise. The class \<^verbatim>\<open>LocalTrainingProgress\<close> is
  the one this file defines, which hides the imported one; it has the fields \<^verbatim>\<open>epoch\<close> and
  \<^verbatim>\<open>samples_accumulated\<close> and no \<^verbatim>\<open>peer_id\<close>. So for the first entry at the global epoch the
  element expression \<^verbatim>\<open>LocalTrainingProgress.parse_obj(value).peer_id\<close> raises
  \<^verbatim>\<open>AttributeError\<close>, and the comprehension never yields a peer.
\<close>

fun valid_peer_entries ::
  "('v \<Rightarrow> exc + int) \<Rightarrow> int \<Rightarrow> 'v option list \<Rightarrow> exc + 'p list" where
  "valid_peer_entries epoch_of global_epoch [] = Inr []"
| "valid_peer_entries epoch_of global_epoch (None # entries) =
     valid_peer_entries epoch_of global_epoch entries"
| "valid_peer_entries epoch_of global_epoch (Some v # entries) =
     (case epoch_of v of
        Inl e \<Rightarrow> Inl e
      | Inr ep \<Rightarrow>
          if ep = global_epoch then Inl AttributeError
          else valid_peer_entries epoch_of global_epoch entries)"

text \<open>
  What the download reads from the averager and from the DHT: the two configured
  timeouts, the own peer id, the entries of the progress tracker (\<open>None\<close> when the key is
  absent), and the entries of \<^verbatim>\<open>all_averagers\<close>, each a peer with its priority (\<open>None\<close>
  when the stored value is not a number) and the random number drawn for it as a tie
  breaker.
\<close>

record ('p, 'v) download_env =
  next_chunk_timeout :: "real option"
  request_timeout :: real
  own_peer_id :: 'p
  training_progress_metadata :: "'v option list option"
  all_averagers :: "('p \<times> real option \<times> real) list"

text \<open>
  \<^verbatim>\<open>_load_state_from_peers_with_latest_state\<close>: the exception it ends with, if any, and the
  result of the future, which the \<^verbatim>\<open>finally\<close> block sets to \<^verbatim>\<open>None\<close> if nothing else did.
  \<^verbatim>\<open>sorted(..., reverse=True)\<close> is stable, as is sorting by the negated key.
\<close>

definition load_state_from_peers_with_latest_state ::
  "('p, 'v) download_env \<Rightarrow> ('v \<Rightarrow> exc + int) \<Rightarrow>
   ('p \<Rightarrow> exc + ('md, 'c) stream_event list) \<Rightarrow> int \<Rightarrow> real option
     \<Rightarrow> exc option \<times> ('md \<times> 'c list list) option" where
  "load_state_from_peers_with_latest_state env epoch_of download global_epoch timeout =
     (let timeout' = chunk_timeout timeout (next_chunk_timeout env) (request_timeout env)
      in case training_progress_metadata env of
           None \<Rightarrow> (None, None)
         | Some entries \<Rightarrow>
             (case valid_peer_entries epoch_of global_epoch entries of
                Inl e \<Rightarrow> (Some e, None)
              | Inr valid \<Rightarrow>
                  (let peer_priority =
                         [(peer, pr, rnd). (peer, Some pr, rnd) \<leftarrow> all_averagers env,
                                            peer \<in> set valid]
                   in if length peer_priority = 0 then (None, None)
                      else try_peers timeout' (own_peer_id env) download
                             (map fst (sort_key (\<lambda>(peer, pr, rnd). (- pr, - rnd)) peer_priority))
                             None)))"

section \<open>Loading the state in the neuron\<close>

text \<open>
  The name of a tag of the model repository: \<^verbatim>\<open>int(name)\<close> gives a number or raises
  \<^verbatim>\<open>ValueError\<close>. \<^verbatim>\<open>str\<close> of an epoch is represented by the epoch itself.
\<close>

datatype tag_name = Numeric int | NotNumeric string

definition py_int :: "tag_name \<Rightarrow> exc + int" where
  "py_int name = (case name of Numeric i \<Rightarrow> Inr i | NotNumeric s \<Rightarrow> Inl ValueError)"

text \<open>The calls to the model hub and to the state averager, in the order they are made.\<close>

datatype hub_call =
    ListRepoRefs
  | FromPretrained int
  | LoadFinalStateFromPeers int
  | PushToHub
  | CreateTag int

text \<open>
  The neuron: its model, the epochs it keeps, and the calls made so far.
  \<open>progress_shared\<close> says whether \<^verbatim>\<open>self.tracker.local_progress\<close> and
  \<^verbatim>\<open>self.local_progress\<close> are one object.
\<close>

record 'm neuron =
  model :: 'm
  global_progress_epoch :: int
  tracker_local_progress_epoch :: int
  local_progress_epoch :: int
  neuron_local_epoch :: int
  progress_shared :: bool
  hub_calls :: "hub_call list"

text \<open>
  What the environment answers: the global epoch that \<^verbatim>\<open>update_global_tracker_state\<close>
  finds, the tags listed by the first and by the second \<^verbatim>\<open>list_repo_refs\<close>, the model
  \<^verbatim>\<open>from_pretrained\<close> gives for a revision, and the outcome of
  \<^verbatim>\<open>state_averager.load_final_state_from_peers\<close> together with the model it leaves.
\<close>

record 'm hub_env =
  tracked_epoch :: int
  tags_before :: "tag_name list"
  tags_after :: "tag_name list"
  from_pretrained :: "int \<Rightarrow> exc + 'm"
  from_peers :: "int \<Rightarrow> (exc + bool) \<times> 'm"

text \<open>The second half of \<^verbatim>\<open>load_state_from_peer\<close>, run when \<^verbatim>\<open>loaded_state\<close> is true.\<close>

definition after_load :: "'m hub_env \<Rightarrow> 'm neuron \<Rightarrow> exc option \<times> 'm neuron" where
  "after_load env n =
     (let g = global_progress_epoch n;
          n1 = n\<lparr>tracker_local_progress_epoch := g,
                 neuron_local_epoch := (if progress_shared n then g else local_progress_epoch n),
                 local_progress_epoch := g,
                 hub_calls := hub_calls n @ [ListRepoRefs]\<rparr>
      in case tags_after env of
           [] \<Rightarrow> (Some IndexError, n1)
         | t # ts \<Rightarrow>
             (case py_int (last (t # ts)) of
                Inl e \<Rightarrow> (Some e, n1)
              | Inr newest \<Rightarrow>
                  if newest < local_progress_epoch n1
                  then (None, n1\<lparr>hub_calls := hub_calls n1
                                   @ [PushToHub, CreateTag (local_progress_epoch n1)]\<rparr>)
                  else (None, n1)))"

text \<open>
  \<^verbatim>\<open>load_state_from_peer(self, epoch=None)\<close>. The bare \<^verbatim>\<open>except:\<close> around the call to the
  state averager swallows every exception and leaves \<^verbatim>\<open>loaded_state\<close> false.
\<close>

definition load_state_from_peer ::
  "'m hub_env \<Rightarrow> 'm neuron \<Rightarrow> int option \<Rightarrow> exc option \<times> 'm neuron" where
  "load_state_from_peer env n0 epoch_arg =
     (let n = (case epoch_arg of None \<Rightarrow> n0\<lparr>global_progress_epoch := tracked_epoch env\<rparr>
               | Some e \<Rightarrow> n0);
          epoch = (case epoch_arg of None \<Rightarrow> global_progress_epoch n | Some e \<Rightarrow> e);
          n1 = n\<lparr>hub_calls := hub_calls n @ [ListRepoRefs]\<rparr>;
          from_hub = (case tags_before env of
                        [] \<Rightarrow> Inr False
                      | t # ts \<Rightarrow>
                          (case py_int (last (t # ts)) of
                             Inl e \<Rightarrow> Inl e
                           | Inr newest \<Rightarrow> Inr (newest \<ge> global_progress_epoch n1)))
      in case from_hub of
           Inl e \<Rightarrow> (Some e, n1)
         | Inr True \<Rightarrow>
             (let n2 = n1\<lparr>hub_calls := hub_calls n1 @ [FromPretrained (global_progress_epoch n1)]\<rparr>
              in case from_pretrained env (global_progress_epoch n1) of
                   Inl e \<Rightarrow> (Some e, n2)
                 | Inr m \<Rightarrow> after_load env (n2\<lparr>model := m\<rparr>))
         | Inr False \<Rightarrow>
             (let n2 = n1\<lparr>hub_calls := hub_calls n1 @ [LoadFinalStateFromPeers epoch]\<rparr>
              in case from_peers env epoch of
                   (Inr True, m) \<Rightarrow> after_load env (n2\<lparr>model := m\<rparr>)
                 | (Inr False, m) \<Rightarrow> (None, n2\<lparr>model := m\<rparr>)
                 | (Inl e, m) \<Rightarrow> (None, n2\<lparr>model := m\<rparr>)))"

section \<open>DTAllReduceRunner\<close>

text \<open>
  The calls the runner makes on the tensor part container and on the tensor part reducer,
  both of the hivemind library. They are recorded in the order they are made and taken
  not to raise.
\<close>

datatype 't runner_call =
    RegisterProcessedPart nat nat 't
  | RegisterFailedReducer nat
  | OnSenderFailed nat

record ('p, 't) runner =
  peer_id :: 'p
  ordered_peer_ids :: "'p list"
  sender_peer_ids :: "'p list"
  banned_senders :: "'p set"
  num_parts_by_peer :: "nat list"
  parts_for_local_averaging :: "'t list"
  runner_calls :: "'t runner_call list"

text \<open>\<^verbatim>\<open>list.index\<close>: the first position of the element, \<^verbatim>\<open>ValueError\<close> if it is absent.\<close>

fun list_index :: "'a list \<Rightarrow> 'a \<Rightarrow> exc + nat" where
  "list_index [] x = Inl ValueError"
| "list_index (y # ys) x =
     (if y = x then Inr 0
      else (case list_index ys x of Inl e \<Rightarrow> Inl e | Inr i \<Rightarrow> Inr (Suc i)))"

text \<open>
  \<^verbatim>\<open>_ban_sender\<close>: the exception it raises, if any, and the runner afterwards. A peer that
  is not banned yet is added to the set, the reducer is told, and \<^verbatim>\<open>Exception\<close> is raised.
\<close>

definition ban_sender :: "('p, 't) runner \<Rightarrow> 'p \<Rightarrow> exc option \<times> ('p, 't) runner" where
  "ban_sender r peer =
     (if peer \<notin> banned_senders r
      then (let r1 = r\<lparr>banned_senders := insert peer (banned_senders r)\<rparr>
            in case list_index (sender_peer_ids r1) peer of
                 Inl e \<Rightarrow> (Some e, r1)
               | Inr i \<Rightarrow>
                   (Some Exception, r1\<lparr>runner_calls := runner_calls r1 @ [OnSenderFailed i]\<rparr>))
      else (None, r))"

text \<open>
  The codes of \<^verbatim>\<open>averaging_pb2\<close> that the source names; \<open>OTHER_CODE\<close> stands for the rest.
  A message of the \<^verbatim>\<open>rpc_aggregate_part\<close> stream carries a code and a tensor part; the
  stream is the list of what happens on it, a message or an exception (a timeout of
  \<^verbatim>\<open>aiter_with_timeout\<close>, a transport error).
\<close>

datatype message_code = PART_FOR_AVERAGING | AVERAGED_PART | INTERNAL_ERROR | CANCELLED | OTHER_CODE

record 't averaging_data =
  code :: message_code
  delta :: 't

datatype 't reply = Message "'t averaging_data" | StreamRaises exc

text \<open>
  The \<^verbatim>\<open>async for\<close> loop of \<^verbatim>\<open>_communicate_with_peer\<close> with \<^verbatim>\<open>_try_deserialize\<close>: the number
  of parts counted, or the exception that ends the loop, and the calls made.
\<close>

fun receive_parts ::
  "nat \<Rightarrow> nat \<Rightarrow> 't reply list \<Rightarrow> 't runner_call list \<Rightarrow> (exc + nat) \<times> 't runner_call list" where
  "receive_parts peer_index part_index [] calls = (Inr part_index, calls)"
| "receive_parts peer_index part_index (StreamRaises e # replies) calls = (Inl e, calls)"
| "receive_parts peer_index part_index (Message msg # replies) calls =
     (if code msg \<noteq> AVERAGED_PART then (Inl AllreduceException, calls)
      else receive_parts peer_index (Suc part_index) replies
             (calls @ [RegisterProcessedPart peer_index part_index (delta msg)]))"

text \<open>
  The local branch: \<open>accumulate_part\<close> is the reducer's answer for a part, an exception or
  the averaged part; the difference to the own part is registered.
\<close>

fun average_locally ::
  "(nat \<Rightarrow> nat \<Rightarrow> 't \<Rightarrow> exc + 't::minus) \<Rightarrow> nat \<Rightarrow> nat \<Rightarrow> nat \<Rightarrow> 't list \<Rightarrow> 't runner_call list
     \<Rightarrow> exc option \<times> 't runner_call list" where
  "average_locally accumulate_part peer_index sender_index part_index [] calls = (None, calls)"
| "average_locally accumulate_part peer_index sender_index part_index (local_part # parts) calls =
     (case accumulate_part sender_index part_index local_part of
        Inl e \<Rightarrow> (Some e, calls)
      | Inr averaged_part \<Rightarrow>
          average_locally accumulate_part peer_index sender_index (Suc part_index) parts
            (calls @ [RegisterProcessedPart peer_index part_index (averaged_part - local_part)]))"

text \<open>
  \<^verbatim>\<open>_communicate_with_peer\<close>. \<open>open_stream\<close> is what the part of the \<^verbatim>\<open>try\<close> block up to the
  loop gives: an exception, or the replies of the peer. Every exception of the remote
  branch passes through \<^verbatim>\<open>except BaseException\<close>, which registers the failed reducer and
  raises again.
\<close>

definition communicate_with_peer ::
  "(nat \<Rightarrow> nat \<Rightarrow> 't \<Rightarrow> exc + 't::minus) \<Rightarrow> (exc + 't reply list) \<Rightarrow> ('p, 't) runner \<Rightarrow> 'p
     \<Rightarrow> exc option \<times> ('p, 't) runner" where
  "communicate_with_peer accumulate_part open_stream r peer =
     (case list_index (ordered_peer_ids r) peer of
        Inl e \<Rightarrow> (Some e, r)
      | Inr peer_index \<Rightarrow>
          if peer = peer_id r
          then (case list_index (sender_peer_ids r) peer of
                  Inl e \<Rightarrow> (Some e, r)
                | Inr sender_index \<Rightarrow>
                    (case average_locally accumulate_part peer_index sender_index 0
                            (parts_for_local_averaging r) (runner_calls r) of
                       (raised, calls) \<Rightarrow> (raised, r\<lparr>runner_calls := calls\<rparr>)))
          else
            (let (result, calls) =
                   (case open_stream of
                      Inl e \<Rightarrow> (Inl e, runner_calls r)
                    | Inr replies \<Rightarrow>
                        (case receive_parts peer_index 0 replies (runner_calls r) of
                           (Inl e, calls) \<Rightarrow> (Inl e, calls)
                         | (Inr part_index, calls) \<Rightarrow>
                             if peer_index < length (num_parts_by_peer r)
                             then (if part_index \<noteq> num_parts_by_peer r ! peer_index
                                   then (Inl AllreduceException, calls)
                                   else (Inr part_index, calls))
                             else (Inl IndexError, calls)))
             in case result of
                  Inl e \<Rightarrow> (Some e, r\<lparr>runner_calls := calls @ [RegisterFailedReducer peer_index]\<rparr>)
                | Inr n \<Rightarrow> (None, r\<lparr>runner_calls := calls\<rparr>)))"

section \<open>DTAverager._aggregate_with_group\<close>

datatype averaging_mode = NODE | CLIENT | AUX

text \<open>\<^verbatim>\<open>AveragingMode(mode_id)\<close>: the enumeration value, \<^verbatim>\<open>ValueError\<close> for an unknown id.\<close>

definition averaging_mode_of :: "int \<Rightarrow> exc + averaging_mode" where
  "averaging_mode_of mode_id =
     (if mode_id = 0 then Inr NODE else if mode_id = 1 then Inr CLIENT
      else if mode_id = 2 then Inr AUX else Inl ValueError)"

fun averaging_modes :: "int list \<Rightarrow> exc + averaging_mode list" where
  "averaging_modes [] = Inr []"
| "averaging_modes (i # ids) =
     (case averaging_mode_of i of
        Inl e \<Rightarrow> Inl e
      | Inr m \<Rightarrow> (case averaging_modes ids of Inl e \<Rightarrow> Inl e | Inr ms \<Rightarrow> Inr (m # ms)))"

text \<open>
  The group as matchmaking formed it; an element of \<open>gathered\<close> is the deserialized triple
  of bandwidth, mode id and user data of a peer.
\<close>

record ('p, 'u) group_info =
  group_id :: nat
  peer_ids :: "'p list"
  gathered :: "(real \<times> int \<times> 'u) list"

text \<open>
  What the runner yields while the averager iterates over it: an update for the next
  tensor, or an exception. The runner itself is the library's: \<open>run_modes\<close> is its
  attribute \<^verbatim>\<open>modes\<close>.
\<close>

datatype 't run_output = Update 't | RunnerRaises exc

record 't allreduce_run =
  run_modes :: "averaging_mode list"
  run_outputs :: "'t run_output list"

text \<open>
  \<^verbatim>\<open>async for tensor, update in azip(as_aiter(*local_tensors), runner)\<close> with
  \<^verbatim>\<open>tensor.add_(update, alpha=self._averaging_alpha)\<close>: the exception that ends the loop,
  if any, and the tensors.
\<close>

fun apply_updates ::
  "real \<Rightarrow> 't::real_vector list \<Rightarrow> 't run_output list \<Rightarrow> exc option \<times> 't list" where
  "apply_updates alpha [] outputs = (None, [])"
| "apply_updates alpha (tensor # tensors) [] = (None, tensor # tensors)"
| "apply_updates alpha (tensor # tensors) (RunnerRaises e # outputs) = (Some e, tensor # tensors)"
| "apply_updates alpha (tensor # tensors) (Update update # outputs) =
     (case apply_updates alpha tensors outputs of
        (raised, tensors') \<Rightarrow> (raised, (tensor + alpha *\<^sub>R update) # tensors'))"

text \<open>
  The branch for an auxiliary peer: \<^verbatim>\<open>async for _ in runner: raise ValueError(...)\<close>.
\<close>

definition refuse_updates :: "'t run_output list \<Rightarrow> exc option" where
  "refuse_updates outputs =
     (case outputs of
        [] \<Rightarrow> None
      | Update u # rest \<Rightarrow> Some ValueError
      | RunnerRaises e # rest \<Rightarrow> Some e)"

record ('p, 't) averager =
  averager_peer_id :: 'p
  local_tensors :: "'t list"
  averaging_alpha :: real

text \<open>
  \<^verbatim>\<open>_aggregate_with_group\<close>. \<open>load_balance_peers\<close> (from the download bandwidths) and
  \<open>make_runner\<close> (from the peer fractions) are the library's and may raise. The result is
  the group or the exception, and the averager with its tensors. Whatever is raised inside
  is replaced by \<^verbatim>\<open>MatchmakingException\<close>.
\<close>

definition aggregate_with_group ::
  "(real list \<Rightarrow> exc + real list) \<Rightarrow> (real list \<Rightarrow> exc + 't allreduce_run) \<Rightarrow>
   ('p, 't::real_vector) averager \<Rightarrow> ('p, 'u) group_info
     \<Rightarrow> (exc + ('p, 'u) group_info) \<times> ('p, 't) averager" where
  "aggregate_with_group load_balance_peers make_runner av grp =
     (let inner =
        (if gathered grp = [] then (Some ValueError, av)
         else
           (case averaging_modes (map (\<lambda>(bandwidth, mode_id, user). mode_id) (gathered grp)) of
              Inl e \<Rightarrow> (Some e, av)
            | Inr modes \<Rightarrow>
                (let download_bandwidths =
                       map2 (\<lambda>(thr, mode_id, user) mode. if mode \<noteq> CLIENT then thr else 0)
                         (gathered grp) modes
                 in case load_balance_peers download_bandwidths of
                      Inl e \<Rightarrow> (Some e, av)
                    | Inr peer_fractions \<Rightarrow>
                        (case make_runner peer_fractions of
                           Inl e \<Rightarrow> (Some e, av)
                         | Inr run \<Rightarrow>
                             (case list_index (peer_ids grp) (averager_peer_id av) of
                                Inl e \<Rightarrow> (Some e, av)
                              | Inr i \<Rightarrow>
                                  if i < length (run_modes run)
                                  then
                                    (if run_modes run ! i \<noteq> AUX
                                     then (case apply_updates (averaging_alpha av)
                                                  (local_tensors av) (run_outputs run) of
                                             (raised, tensors) \<Rightarrow>
                                               (raised, av\<lparr>local_tensors := tensors\<rparr>))
                                     else (refuse_updates (run_outputs run), av))
                                  else (Some IndexError, av))))))
      in case inner of
           (Some e, av') \<Rightarrow> (Inl MatchmakingException, av')
         | (None, av') \<Rightarrow> (Inr grp, av'))"

section \<open>Example inputs\<close>





text \<open>
  A neuron whose global epoch is 10 and whose local epoch is 9, and a model hub that lists
  the given tags at the first and at the second listing; \<^verbatim>\<open>from_pretrained\<close> gives the model
  1, loading from the peers succeeds and leaves the model 2.
\<close>

definition example_neuron :: "nat neuron" where
  "example_neuron =
     \<lparr>model = 0, global_progress_epoch = 10, tracker_local_progress_epoch = 9,
      local_progress_epoch = 9, neuron_local_epoch = 9, progress_shared = True,
      hub_calls = []\<rparr>"

definition example_hub :: "tag_name list \<Rightarrow> tag_name list \<Rightarrow> nat hub_env" where
  "example_hub before after =
     \<lparr>tracked_epoch = 10, tags_before = before, tags_after = after,
      from_pretrained = (\<lambda>revision. Inr 1), from_peers = (\<lambda>ep. (Inr True, 2))\<rparr>"

text \<open>A runner of peer 0 in a group of three peers, each promised two parts, nobody banned.\<close>

definition example_runner :: "(nat, real) runner" where
  "example_runner =
     \<lparr>peer_id = 0, ordered_peer_ids = [0, 1, 2], sender_peer_ids = [0, 1, 2],
      banned_senders = {}, num_parts_by_peer = [2, 2, 2],
      parts_for_local_averaging = [1, 1], runner_calls = []\<rparr>"

text \<open>
  An averager (peer 0) with two tensors and averaging factor 1, in a group of two peers in
  which it declared the mode id 2 (\<open>AUX\<close>) and the other peer the mode id 0 (\<open>NODE\<close>).
\<close>

definition example_peer :: "(nat, real) averager" where
  "example_peer = \<lparr>averager_peer_id = 0, local_tensors = [1, 2], averaging_alpha = 1\<rparr>"

definition aux_group :: "(nat, unit) group_info" where
  "aux_group = \<lparr>group_id = 0, peer_ids = [0, 1], gathered = [(10, 2, ()), (10, 0, ())]\<rparr>"

text \<open>
  The runner as \<^verbatim>\<open>_aggregate_with_group\<close> builds it: the call passes the peer fractions and
  no \<^verbatim>\<open>modes=\<close>, and hivemind's \<^verbatim>\<open>AllReduceRunner\<close> then takes \<open>CLIENT\<close> for a peer with
  fraction zero and \<open>NODE\<close> for every other peer. \<open>runner_yielding updates\<close> is such a
  runner that yields the given updates.
\<close>

definition default_modes :: "real list \<Rightarrow> averaging_mode list" where
  "default_modes fractions = map (\<lambda>frac. if frac = 0 then CLIENT else NODE) fractions"

definition runner_yielding :: "'t list \<Rightarrow> real list \<Rightarrow> exc + 't allreduce_run" where
  "runner_yielding updates fractions =
     Inr \<lparr>run_modes = default_modes fractions, run_outputs = map Update updates\<rparr>"

section \<open>Properties of the gradient accumulators\<close>

lemma accumulate_loop_length:
  "length (fst (accumulate_loop alpha ps accs)) = length ps \<and>
   length (snd (accumulate_loop alpha ps accs)) = length accs"
  by (induction alpha ps accs rule: accumulate_loop.induct) (auto split: prod.splits)

lemma accumulate_loop_nth:
  "i < length accs \<Longrightarrow>
   snd (accumulate_loop alpha ps accs) ! i =
     (if i < length ps then accs ! i + alpha *\<^sub>R current_grad (ps ! i) else accs ! i)"
proof (induction alpha ps accs arbitrary: i rule: accumulate_loop.induct)
  case (3 alpha p ps a accs)
  then show ?case by (cases i) (auto split: prod.splits)
qed auto

lemma accumulate_grads_ok:
  assumes "\<not> reuse_grad_buffers st" and "local_accumulators st = Some accs"
    and "anchor = (case anchor_batch_size st of None \<Rightarrow> batch_size | Some a \<Rightarrow> a)"
    and "anchor \<noteq> 0"
  shows "fst (accumulate_grads st batch_size) = None"
    and "anchor_batch_size (snd (accumulate_grads st batch_size)) = Some anchor"
    and "local_samples_accumulated (snd (accumulate_grads st batch_size)) =
           local_samples_accumulated st + batch_size"
    and "local_times_accumulated (snd (accumulate_grads st batch_size)) =
           local_times_accumulated st + 1"
    and "local_accumulators (snd (accumulate_grads st batch_size)) =
           Some (snd (accumulate_loop (real_of_int batch_size / real_of_int anchor)
                        (parameters st) accs))"
    and "reuse_grad_buffers (snd (accumulate_grads st batch_size)) = reuse_grad_buffers st"
    and "averaged_tensors (snd (accumulate_grads st batch_size)) = averaged_tensors st"
    and "parameters (snd (accumulate_grads st batch_size)) =
           fst (accumulate_loop (real_of_int batch_size / real_of_int anchor)
                  (parameters st) accs)"
  using assms
  by (auto simp: accumulate_grads_def Let_def split: list.splits prod.splits option.splits)

lemma backward_fields:
  "reuse_grad_buffers (backward gs st) = reuse_grad_buffers st"
  "local_accumulators (backward gs st) = local_accumulators st"
  "anchor_batch_size (backward gs st) = anchor_batch_size st"
  "local_samples_accumulated (backward gs st) = local_samples_accumulated st"
  "local_times_accumulated (backward gs st) = local_times_accumulated st"
  "averaged_tensors (backward gs st) = averaged_tensors st"
  "length (parameters (backward gs st)) = min (length (parameters st)) (length gs)"
  by (simp_all add: backward_def)

lemma backward_current_grad:
  "i < length (parameters st) \<Longrightarrow> i < length gs \<Longrightarrow>
   current_grad (parameters (backward gs st) ! i) = gs ! i"
  by (simp add: backward_def current_grad_def)

lemma accumulate_after_backward:
  assumes "\<not> reuse_grad_buffers st" and "local_accumulators st = Some accs"
    and "anchor = (case anchor_batch_size st of None \<Rightarrow> batch_size | Some a \<Rightarrow> a)"
    and "anchor \<noteq> 0"
    and "length accs = n" and "length (parameters st) = n" and "length gs = n"
  defines "st' \<equiv> snd (accumulate_grads (backward gs st) batch_size)"
  shows "\<not> reuse_grad_buffers st'"
    and "anchor_batch_size st' = Some anchor"
    and "local_times_accumulated st' = local_times_accumulated st + 1"
    and "local_samples_accumulated st' = local_samples_accumulated st + batch_size"
    and "length (parameters st') = n"
    and "averaged_tensors st' = averaged_tensors st"
    and "\<exists>accs'. local_accumulators st' = Some accs' \<and> length accs' = n \<and>
           (\<forall>i<n. accs' ! i =
                    accs ! i + (real_of_int batch_size / real_of_int anchor) *\<^sub>R gs ! i)"
proof -
  let ?b = "backward gs st"
  let ?alpha = "real_of_int batch_size / real_of_int anchor"
  have b: "\<not> reuse_grad_buffers ?b" "local_accumulators ?b = Some accs"
    "anchor = (case anchor_batch_size ?b of None \<Rightarrow> batch_size | Some a \<Rightarrow> a)"
    using assms by (simp_all add: backward_fields)
  note ok = accumulate_grads_ok[OF b(1) b(2) b(3) assms(4)]
  show "\<not> reuse_grad_buffers st'" using ok(6) b(1) by (simp add: st'_def)
  show "anchor_batch_size st' = Some anchor" using ok(2) by (simp add: st'_def)
  show "local_times_accumulated st' = local_times_accumulated st + 1"
    using ok(4) by (simp add: st'_def backward_fields)
  show "local_samples_accumulated st' = local_samples_accumulated st + batch_size"
    using ok(3) by (simp add: st'_def backward_fields)
  show "length (parameters st') = n"
    using ok(8) assms(6,7) by (simp add: st'_def accumulate_loop_length backward_fields)
  show "averaged_tensors st' = averaged_tensors st"
    using ok(7) by (simp add: st'_def backward_fields)
  let ?accs' = "snd (accumulate_loop ?alpha (parameters ?b) accs)"
  have "local_accumulators st' = Some ?accs'" using ok(5) by (simp add: st'_def)
  moreover have "length ?accs' = n" using assms(5) by (simp add: accumulate_loop_length)
  moreover have "\<forall>i<n. ?accs' ! i = accs ! i + ?alpha *\<^sub>R gs ! i"
    using assms(5,6,7) by (simp add: accumulate_loop_nth backward_fields backward_current_grad)
  ultimately show "\<exists>accs'. local_accumulators st' = Some accs' \<and> length accs' = n \<and>
           (\<forall>i<n. accs' ! i = accs ! i + ?alpha *\<^sub>R gs ! i)"
    by blast
qed

lemma load_loop_length: "length (load_loop s accs avgs) = length avgs"
  by (induction s accs avgs rule: load_loop.induct) auto

lemma load_loop_nth:
  "i < length avgs \<Longrightarrow>
   load_loop s accs avgs ! i = (if i < length accs then s *\<^sub>R (accs ! i) else avgs ! i)"
proof (induction s accs avgs arbitrary: i rule: load_loop.induct)
  case (1 s a accs v avgs)
  then show ?case by (cases i) auto
qed auto

lemma reset_ok:
  assumes "\<not> reuse_grad_buffers st" and "local_accumulators st = Some accs"
  shows "fst (reset_accumulated_grads st) = None"
    and "\<not> reuse_grad_buffers (snd (reset_accumulated_grads st))"
    and "local_accumulators (snd (reset_accumulated_grads st)) = Some (map (\<lambda>_. 0) accs)"
    and "anchor_batch_size (snd (reset_accumulated_grads st)) = None"
    and "local_times_accumulated (snd (reset_accumulated_grads st)) = 0"
    and "local_samples_accumulated (snd (reset_accumulated_grads st)) = 0"
    and "parameters (snd (reset_accumulated_grads st)) = parameters st"
    and "averaged_tensors (snd (reset_accumulated_grads st)) = averaged_tensors st"
  using assms by (simp_all add: reset_accumulated_grads_def)

lemma load_ok:
  assumes "\<not> reuse_grad_buffers st" and "local_accumulators st = Some accs"
  shows "load_accumulators_into_averager st =
     (None, st\<lparr>averaged_tensors :=
        load_loop (if local_times_accumulated st \<noteq> 0
                   then 1 / real_of_int (local_times_accumulated st) else 0)
          accs (averaged_tensors st)\<rparr>)"
  using assms by (simp add: load_accumulators_into_averager_def)

lemma example_reset: "snd (reset_accumulated_grads example_averager) = example_averager"
  by (simp add: reset_accumulated_grads_def example_averager_def)

lemma example_first:
  "snd (accumulate_grads (backward [3] example_averager) 8) = example_accumulated 3 8 1"
  by (simp add: accumulate_grads_def backward_def example_averager_def
      example_accumulated_def ensure_grad_def current_grad_def)

lemma example_next:
  "snd (accumulate_grads (backward [3] (example_accumulated acc smp tms)) b) =
     example_accumulated (acc + (real_of_int b / 8) * 3) (smp + b) (tms + 1)"
  by (simp add: accumulate_grads_def backward_def
      example_accumulated_def ensure_grad_def current_grad_def)

lemma example_load:
  "averaged_tensors (snd (load_accumulators_into_averager (example_accumulated acc smp 3))) =
     [acc / 3]"
  by (simp add: load_accumulators_into_averager_def example_accumulated_def)

text \<open>
  C6. With \<^verbatim>\<open>reuse_grad_buffers\<close> off and a non-zero anchor, a call of
  \<^verbatim>\<open>accumulate_grads_(batch_size)\<close> raises nothing, adds to every accumulator that has a
  parameter the current gradient of that parameter scaled by
  \<open>batch_size / anchor_batch_size\<close>, adds \<open>batch_size\<close> to the samples and 1 to the times.
  The anchor is the one already stored, or else the batch size of this call, and it stays
  stored; \<^verbatim>\<open>reset_accumulated_grads_\<close> clears it. So it is the batch size of the first call
  since the last reset.
\<close>

theorem accumulate_grads_scaled_by_anchor:
  assumes "\<not> reuse_grad_buffers st" and "local_accumulators st = Some accs"
    and "anchor = (case anchor_batch_size st of None \<Rightarrow> batch_size | Some a \<Rightarrow> a)"
    and "anchor \<noteq> 0"
  shows "fst (accumulate_grads st batch_size) = None \<and>
         anchor_batch_size (snd (accumulate_grads st batch_size)) = Some anchor \<and>
         local_samples_accumulated (snd (accumulate_grads st batch_size)) =
           local_samples_accumulated st + batch_size \<and>
         local_times_accumulated (snd (accumulate_grads st batch_size)) =
           local_times_accumulated st + 1 \<and>
         (\<exists>accs'. local_accumulators (snd (accumulate_grads st batch_size)) = Some accs' \<and>
            length accs' = length accs \<and>
            (\<forall>i<length accs.
               accs' ! i =
                 (if i < length (parameters st)
                  then accs ! i + (real_of_int batch_size / real_of_int anchor) *\<^sub>R
                                    current_grad (parameters st ! i)
                  else accs ! i))) \<and>
         anchor_batch_size (snd (reset_accumulated_grads st)) = None"
proof -
  note ok = accumulate_grads_ok[OF assms]
  have "anchor_batch_size (snd (reset_accumulated_grads st)) = None"
    using reset_ok(4)[OF assms(1,2)] .
  then show ?thesis
    using ok(1-5) by (simp add: accumulate_loop_length accumulate_loop_nth)
qed

theorem accumulate_grads_scaled_by_anchor_witness:
  "fst (accumulate_grads (backward [3] (example_accumulated 3 8 1)) 16) = None \<and>
   anchor_batch_size (snd (accumulate_grads (backward [3] (example_accumulated 3 8 1)) 16)) =
     Some 8 \<and>
   local_samples_accumulated (snd (accumulate_grads (backward [3] (example_accumulated 3 8 1)) 16))
     = 24 \<and>
   local_times_accumulated (snd (accumulate_grads (backward [3] (example_accumulated 3 8 1)) 16))
     = 2 \<and>
   local_accumulators (snd (accumulate_grads (backward [3] (example_accumulated 3 8 1)) 16)) =
     Some [3 + (16 / 8) * 3]"
proof -
  let ?st = "backward [3] (example_accumulated 3 8 1)"
  have h1: "\<not> reuse_grad_buffers ?st"
    by (simp add: backward_def example_accumulated_def)
  have h2: "local_accumulators ?st = Some [3]"
    by (simp add: backward_def example_accumulated_def)
  have h3: "(8::int) = (case anchor_batch_size ?st of None \<Rightarrow> 16 | Some a \<Rightarrow> a)"
    by (simp add: backward_def example_accumulated_def)
  have h4: "(8::int) \<noteq> 0" by simp
  have p: "length (parameters ?st) = 1" "current_grad (parameters ?st ! 0) = 3"
    "local_samples_accumulated ?st = 8" "local_times_accumulated ?st = 1"
    by (simp_all add: backward_def example_accumulated_def current_grad_def)
  from accumulate_grads_scaled_by_anchor[OF h1 h2 h3 h4]
  obtain accs' where a: "fst (accumulate_grads ?st 16) = None"
    "anchor_batch_size (snd (accumulate_grads ?st 16)) = Some 8"
    "local_samples_accumulated (snd (accumulate_grads ?st 16)) = 24"
    "local_times_accumulated (snd (accumulate_grads ?st 16)) = 2"
    "local_accumulators (snd (accumulate_grads ?st 16)) = Some accs'"
    "length accs' = 1" "accs' ! 0 = 3 + (16 / 8) * 3"
    using p by auto
  from a(6,7) have "accs' = [3 + (16 / 8) * 3]"
    by (cases accs') auto
  with a show ?thesis by simp
qed

text \<open>
  C2, as the code has it. After a reset, accumulating the gradients \<open>g1\<close>, \<open>g2\<close>, \<open>g3\<close> with
  batch sizes 8, 8 and 16 and loading the accumulators into the averager leaves
  \<open>(g1 + g2 + 2 * g3) / 3\<close> in every averaging buffer: the weighted sum is divided by the
  number of calls, which is 3.
\<close>

theorem accumulate_8_8_16_mean:
  fixes st0 :: "'t::real_vector grad_averager"
  assumes "\<not> reuse_grad_buffers st0" and "local_accumulators st0 = Some accs0"
    and "length accs0 = n" and "length (parameters st0) = n"
    and "length (averaged_tensors st0) = n"
    and "length g1 = n" and "length g2 = n" and "length g3 = n"
  shows "length (averaged_tensors (accumulate_8_8_16 st0 g1 g2 g3)) = n \<and>
         (\<forall>i<n. averaged_tensors (accumulate_8_8_16 st0 g1 g2 g3) ! i =
                  (1 / 3) *\<^sub>R (g1 ! i + g2 ! i + 2 *\<^sub>R g3 ! i))"
proof -
  define s0 where "s0 = snd (reset_accumulated_grads st0)"
  define s1 where "s1 = snd (accumulate_grads (backward g1 s0) 8)"
  define s2 where "s2 = snd (accumulate_grads (backward g2 s1) 8)"
  define s3 where "s3 = snd (accumulate_grads (backward g3 s2) 16)"
  note r = reset_ok[OF assms(1,2), folded s0_def]
  have len0: "length (map (\<lambda>_. 0::'t) accs0) = n" using assms(3) by simp
  have p0: "length (parameters s0) = n" using r(7) assms(4) by simp
  have a0: "(8::int) = (case anchor_batch_size s0 of None \<Rightarrow> 8 | Some a \<Rightarrow> a)"
    using r(4) by simp
  note t1 = accumulate_after_backward[OF r(2) r(3) a0 _ len0 p0 assms(6), folded s1_def]
  obtain accs1 where acc1: "local_accumulators s1 = Some accs1" "length accs1 = n"
    "\<forall>i<n. accs1 ! i = map (\<lambda>_. 0) accs0 ! i + (real_of_int 8 / real_of_int 8) *\<^sub>R g1 ! i"
    using t1(7) by auto
  have a1: "(8::int) = (case anchor_batch_size s1 of None \<Rightarrow> 8 | Some a \<Rightarrow> a)"
    using t1(2) by simp
  note t2 = accumulate_after_backward[OF t1(1) acc1(1) a1 _ acc1(2) t1(5) assms(7),
      folded s2_def]
  obtain accs2 where acc2: "local_accumulators s2 = Some accs2" "length accs2 = n"
    "\<forall>i<n. accs2 ! i = accs1 ! i + (real_of_int 8 / real_of_int 8) *\<^sub>R g2 ! i"
    using t2(7) by auto
  have a2: "(8::int) = (case anchor_batch_size s2 of None \<Rightarrow> 16 | Some a \<Rightarrow> a)"
    using t2(2) by simp
  note t3 = accumulate_after_backward[OF t2(1) acc2(1) a2 _ acc2(2) t2(5) assms(8),
      folded s3_def]
  obtain accs3 where acc3: "local_accumulators s3 = Some accs3" "length accs3 = n"
    "\<forall>i<n. accs3 ! i = accs2 ! i + (real_of_int 16 / real_of_int 8) *\<^sub>R g3 ! i"
    using t3(7) by auto
  have tms: "local_times_accumulated s3 = 3"
    using t3(3) t2(3) t1(3) r(5) by simp
  have avg: "averaged_tensors s3 = averaged_tensors st0"
    using t3(6) t2(6) t1(6) r(8) by simp
  have fin: "accumulate_8_8_16 st0 g1 g2 g3 = snd (load_accumulators_into_averager s3)"
    by (simp add: accumulate_8_8_16_def Let_def s0_def s1_def s2_def s3_def)
  have res: "averaged_tensors (accumulate_8_8_16 st0 g1 g2 g3) =
      load_loop (1 / 3) accs3 (averaged_tensors st0)"
    unfolding fin using load_ok[OF t3(1) acc3(1)] tms avg by simp
  have total: "accs3 ! i = g1 ! i + g2 ! i + 2 *\<^sub>R g3 ! i" if "i < n" for i
    using that acc1(3) acc2(3) acc3(3) assms(3) by simp
  show ?thesis
    unfolding res using assms(5) acc3(2) total by (simp add: load_loop_length load_loop_nth)
qed

theorem accumulate_8_8_16_mean_witness:
  "length (averaged_tensors (accumulate_8_8_16 example_averager [3] [3] [3])) = 1 \<and>
   averaged_tensors (accumulate_8_8_16 example_averager [3] [3] [3]) ! 0 = (4::real)"
proof -
  have h: "\<not> reuse_grad_buffers example_averager"
    "local_accumulators example_averager = Some [0]"
    "length [0::real] = 1" "length (parameters example_averager) = 1"
    "length (averaged_tensors example_averager) = 1"
    "length [3::real] = 1"
    by (simp_all add: example_averager_def)
  from accumulate_8_8_16_mean[OF h(1) h(2) h(3) h(4) h(5) h(6) h(6) h(6)]
  show ?thesis by simp
qed

text \<open>
  C2 as the specification words it fails: with all three gradients equal to 3 the buffer
  holds 4, not \<open>(3 + 3 + 2 * 3) / 4 = 3\<close>.
\<close>

theorem accumulate_8_8_16_not_quarter:
  "averaged_tensors (accumulate_8_8_16 example_averager [3] [3] [3]) = [4] \<and>
   [(3 + 3 + 2 * 3) / 4] \<noteq> [4::real]"
  by (simp add: accumulate_8_8_16_def example_reset example_first example_next example_load)

section \<open>Properties of DTGradientAverager.step\<close>

lemma step_with_kwargs:
  "length kwargs > 0 \<Longrightarrow>
   step base_step await_result st weight reset_accumulators (Some c) timeout wait kwargs =
     (Inl RuntimeError, st, Some c)"
  by (simp add: step_def)

lemma step_with_used_control:
  "triggered c = Inr True \<Longrightarrow>
   step base_step await_result st weight reset_accumulators (Some c) timeout wait [] =
     (Inl AssertionError, st, Some c)"
  by (simp add: step_def)

lemma step_fires_trigger:
  assumes "step base_step await_result st weight reset_accumulators (Some c) timeout wait kwargs =
             (Inr ret, st', Some c')"
  shows "triggered c' = Inr True"
  using assms
  by (auto simp: step_def Let_def allow_allreduce_def triggered_def
      split: if_splits sum.splits bool.splits prod.splits option.splits)

text \<open>
  C10. With a pre-scheduled control and any keyword argument, \<^verbatim>\<open>step\<close> raises
  \<^verbatim>\<open>RuntimeError\<close> and leaves the averager and the control as they were. A control whose
  trigger has fired is refused by the assertion, again with nothing changed. A step that
  returns has fired the trigger of its control, so every later \<^verbatim>\<open>step\<close> with that control
  raises and changes nothing: a handle serves one step.
\<close>

theorem step_rejects_kwargs_and_used_control:
  "(length kwargs > 0 \<longrightarrow>
      step base_step await_result st weight reset_accumulators (Some c) timeout wait kwargs =
        (Inl RuntimeError, st, Some c)) \<and>
   (triggered c = Inr True \<longrightarrow>
      step base_step await_result st weight reset_accumulators (Some c) timeout wait [] =
        (Inl AssertionError, st, Some c)) \<and>
   (step base_step await_result st weight reset_accumulators (Some c) timeout wait kwargs =
      (Inr ret, st', Some c') \<longrightarrow>
      triggered c' = Inr True \<and>
      (\<exists>e. step base_step' await_result' st'' weight' reset_accumulators' (Some c') timeout'
              wait' kwargs' = (Inl e, st'', Some c')))"
proof (intro conjI impI)
  assume "length kwargs > 0"
  then show "step base_step await_result st weight reset_accumulators (Some c) timeout wait kwargs =
        (Inl RuntimeError, st, Some c)"
    by (rule step_with_kwargs)
next
  assume "triggered c = Inr True"
  then show "step base_step await_result st weight reset_accumulators (Some c) timeout wait [] =
        (Inl AssertionError, st, Some c)"
    by (rule step_with_used_control)
next
  assume a: "step base_step await_result st weight reset_accumulators (Some c) timeout wait kwargs =
      (Inr ret, st', Some c')"
  then show t: "triggered c' = Inr True" by (rule step_fires_trigger)
  show "\<exists>e. step base_step' await_result' st'' weight' reset_accumulators' (Some c') timeout'
              wait' kwargs' = (Inl e, st'', Some c')"
  proof (cases "length kwargs' > 0")
    case True
    then show ?thesis using step_with_kwargs by blast
  next
    case False
    then have "kwargs' = []" by simp
    then show ?thesis using step_with_used_control[OF t] by blast
  qed
qed

theorem step_rejects_kwargs_and_used_control_witness:
  "step (\<lambda>t k. Inl TimeoutError) (\<lambda>t c. Inr ()) example_averager None True
     (Some (fresh_step\<lparr>trigger := Some False\<rparr>)) None True [(''gather'', Some (1::nat))] =
     (Inl RuntimeError, example_averager, Some (fresh_step\<lparr>trigger := Some False\<rparr>)) \<and>
   step (\<lambda>t k. Inl TimeoutError) (\<lambda>t c. Inr ()) example_averager None True
     (Some (fresh_step\<lparr>trigger := Some True\<rparr>)) None True ([] :: nat kwargs) =
     (Inl AssertionError, example_averager, Some (fresh_step\<lparr>trigger := Some True\<rparr>)) \<and>
   step (\<lambda>t k. Inl TimeoutError) (\<lambda>t c. Inr ()) example_averager None True
     (Some (fresh_step\<lparr>trigger := Some False\<rparr>)) None True ([] :: nat kwargs) =
     (Inr (Gathered ()), example_averager\<lparr>accumulators_used_in_step := False,
                                          new_averaged_grads := True\<rparr>,
      Some (fresh_step\<lparr>trigger := Some True, control_weight := 0\<rparr>)) \<and>
   triggered (fresh_step\<lparr>trigger := Some True, control_weight := 0\<rparr> :: unit step_control) =
     Inr True"
proof -
  let ?b = "\<lambda>(t::real option) (k::nat kwargs). (Inl TimeoutError :: exc + unit step_control)"
  let ?a = "\<lambda>(t::real option) (c::unit step_control). (Inr () :: exc + unit)"
  let ?c = "fresh_step\<lparr>trigger := Some False\<rparr> :: unit step_control"
  let ?u = "fresh_step\<lparr>trigger := Some True\<rparr> :: unit step_control"
  let ?c' = "fresh_step\<lparr>trigger := Some True, control_weight := 0\<rparr> :: unit step_control"
  let ?st' = "example_averager\<lparr>accumulators_used_in_step := False, new_averaged_grads := True\<rparr>"
  have run: "step ?b ?a example_averager None True (Some ?c) None True [] =
               (Inr (Gathered ()), ?st', Some ?c')"
    by (simp add: step_def triggered_def fresh_step_def load_accumulators_into_averager_def
        reset_accumulated_grads_def allow_allreduce_def example_averager_def)
  have k: "length [(''gather'', Some (1::nat))] > 0" by simp
  have u: "triggered ?u = Inr True" by (simp add: triggered_def)
  note t1 = step_rejects_kwargs_and_used_control[where kwargs = "[(''gather'', Some (1::nat))]"
      and base_step = ?b and await_result = ?a and st = example_averager and weight = None
      and reset_accumulators = True and c = ?c and timeout = None and wait = True]
  note t2 = step_rejects_kwargs_and_used_control[where kwargs = "[] :: nat kwargs"
      and base_step = ?b and await_result = ?a and st = example_averager and weight = None
      and reset_accumulators = True and c = ?u and timeout = None and wait = True]
  note t3 = step_rejects_kwargs_and_used_control[where kwargs = "[] :: nat kwargs"
      and base_step = ?b and await_result = ?a and st = example_averager and weight = None
      and reset_accumulators = True and c = ?c and timeout = None and wait = True
      and ret = "Gathered ()" and st' = ?st' and c' = ?c']
  have w1: "step ?b ?a example_averager None True (Some ?c) None True
              [(''gather'', Some (1::nat))] = (Inl RuntimeError, example_averager, Some ?c)"
    using t1 k by blast
  have w2: "step ?b ?a example_averager None True (Some ?u) None True ([] :: nat kwargs) =
              (Inl AssertionError, example_averager, Some ?u)"
    using t2 u by blast
  have w3: "triggered ?c' = Inr True"
    using t3 run by blast
  show ?thesis using w1 w2 run w3 by blast
qed

section \<open>Properties of load_final_state_from_peers\<close>




section \<open>Properties of the state download\<close>

lemma valid_peer_entries_empty:
  "valid_peer_entries epoch_of global_epoch entries = Inr peers \<Longrightarrow> peers = []"
proof (induction entries)
  case Nil
  then show ?case by simp
next
  case (Cons entry entries)
  show ?case
  proof (cases entry)
    case None
    with Cons show ?thesis by simp
  next
    case (Some v)
    with Cons show ?thesis by (simp split: sum.splits if_splits)
  qed
qed

lemma no_priority:
  "[(peer, pr, rnd). (peer, Some pr, rnd) \<leftarrow> xs, peer \<in> set []] = []"
  by (induction xs) (auto split: option.splits)

lemma download_never_succeeds:
  "snd (load_state_from_peers_with_latest_state env epoch_of download global_epoch timeout) = None"
  by (auto simp: load_state_from_peers_with_latest_state_def Let_def no_priority
      split: option.splits sum.splits dest!: valid_peer_entries_empty)


section \<open>Properties of load_state_from_peer\<close>

text \<open>
  C8, at a failing input: the registry holds the tags 10 and 9 and lists them by name, 10
  before 9; the target global epoch is 10. The code reads the tag listed last, 9, which is
  below 10, so it does not fetch the tagged checkpoint: the model is the one loaded from
  the peers (2), and afterwards the model is pushed and the tag 10, which exists, is created
  again. With the same tags listed as 9, 10 the model is fetched from the registry at
  revision 10 (1), the peers are not asked and nothing is pushed.
\<close>

theorem load_state_from_peer_ignores_earlier_tag:
  "Numeric 10 \<in> set (tags_before (example_hub [Numeric 10, Numeric 9] [Numeric 10, Numeric 9])) \<and>
   py_int (Numeric 10) = Inr 10 \<and>
   tracked_epoch (example_hub [Numeric 10, Numeric 9] [Numeric 10, Numeric 9]) = 10 \<and>
   load_state_from_peer (example_hub [Numeric 10, Numeric 9] [Numeric 10, Numeric 9])
     example_neuron None =
     (None, example_neuron\<lparr>model := 2, tracker_local_progress_epoch := 10,
                           local_progress_epoch := 10, neuron_local_epoch := 10,
                           hub_calls := [ListRepoRefs, LoadFinalStateFromPeers 10, ListRepoRefs,
                                         PushToHub, CreateTag 10]\<rparr>) \<and>
   load_state_from_peer (example_hub [Numeric 9, Numeric 10] [Numeric 9, Numeric 10])
     example_neuron None =
     (None, example_neuron\<lparr>model := 1, tracker_local_progress_epoch := 10,
                           local_progress_epoch := 10, neuron_local_epoch := 10,
                           hub_calls := [ListRepoRefs, FromPretrained 10, ListRepoRefs]\<rparr>)"
  by (simp add: load_state_from_peer_def after_load_def example_hub_def example_neuron_def
      py_int_def)

section \<open>Properties of DTAllReduceRunner\<close>

lemma ban_sender_banned: "peer \<in> banned_senders (snd (ban_sender r peer))"
  by (auto simp: ban_sender_def Let_def split: sum.splits)

text \<open>
  \<^verbatim>\<open>_ban_sender\<close> by cases. Banning a peer that is banned already does nothing. Banning a
  sender that is not banned yet adds it to the ban list, tells the reducer that this sender
  failed, and raises \<^verbatim>\<open>Exception\<close> to the caller. A second ban of the same peer changes
  nothing.
\<close>

lemma ban_sender_cases:
  "(peer \<in> banned_senders r \<longrightarrow> ban_sender r peer = (None, r)) \<and>
   (peer \<notin> banned_senders r \<and> list_index (sender_peer_ids r) peer = Inr i \<longrightarrow>
      ban_sender r peer =
        (Some Exception,
         r\<lparr>banned_senders := insert peer (banned_senders r),
           runner_calls := runner_calls r @ [OnSenderFailed i]\<rparr>)) \<and>
   ban_sender (snd (ban_sender r peer)) peer = (None, snd (ban_sender r peer))"
proof (intro conjI impI)
  show "ban_sender (snd (ban_sender r peer)) peer = (None, snd (ban_sender r peer))"
    using ban_sender_banned[of peer r] by (simp add: ban_sender_def)
qed (auto simp: ban_sender_def)

lemma receive_parts_extends:
  "receive_parts peer_index k replies calls = (res, calls') \<Longrightarrow>
   \<exists>more. calls' = calls @ more \<and> RegisterFailedReducer peer_index \<notin> set more"
proof (induction replies arbitrary: k calls)
  case Nil
  then show ?case by simp
next
  case (Cons reply replies)
  show ?case
  proof (cases reply)
    case (StreamRaises e)
    with Cons.prems show ?thesis by simp
  next
    case (Message msg)
    show ?thesis
    proof (cases "code msg = AVERAGED_PART")
      case False
      with Cons.prems Message show ?thesis by simp
    next
      case True
      with Cons.prems Message
      have "receive_parts peer_index (Suc k) replies
              (calls @ [RegisterProcessedPart peer_index k (delta msg)]) = (res, calls')"
        by simp
      from Cons.IH[OF this] show ?thesis by auto
    qed
  qed
qed

lemma receive_parts_counts:
  "receive_parts peer_index k replies calls = (Inr n, calls') \<Longrightarrow>
   n = k + length [msg. Message msg \<leftarrow> replies] \<and>
   (\<forall>msg. Message msg \<in> set replies \<longrightarrow> code msg = AVERAGED_PART)"
proof (induction replies arbitrary: k calls)
  case Nil
  then show ?case by simp
next
  case (Cons reply replies)
  show ?case
  proof (cases reply)
    case (StreamRaises e)
    with Cons.prems show ?thesis by simp
  next
    case (Message msg)
    show ?thesis
    proof (cases "code msg = AVERAGED_PART")
      case False
      with Cons.prems Message show ?thesis by simp
    next
      case True
      with Cons.prems Message
      have "receive_parts peer_index (Suc k) replies
              (calls @ [RegisterProcessedPart peer_index k (delta msg)]) = (Inr n, calls')"
        by simp
      from Cons.IH[OF this] Message True show ?thesis by auto
    qed
  qed
qed

lemma receive_parts_raises:
  "receive_parts peer_index k replies calls = (Inl e, calls') \<Longrightarrow>
   \<forall>e'. StreamRaises e' \<notin> set replies \<Longrightarrow> e = AllreduceException"
proof (induction replies arbitrary: k calls)
  case Nil
  then show ?case by simp
next
  case (Cons reply replies)
  show ?case
  proof (cases reply)
    case (StreamRaises e')
    with Cons.prems show ?thesis by simp
  next
    case (Message msg)
    show ?thesis
    proof (cases "code msg = AVERAGED_PART")
      case False
      with Cons.prems Message show ?thesis by simp
    next
      case True
      with Cons.prems Message
      have "receive_parts peer_index (Suc k) replies
              (calls @ [RegisterProcessedPart peer_index k (delta msg)]) = (Inl e, calls')"
        by simp
      from Cons.IH[OF this] Cons.prems(2) show ?thesis by auto
    qed
  qed
qed

text \<open>
  C4. For a remote peer whose stream opened: if one of its messages has a code other than
  \<^verbatim>\<open>AVERAGED_PART\<close>, or the number of messages it sent differs from the number of parts
  promised for it, then \<^verbatim>\<open>_communicate_with_peer\<close> raises, and the last thing it does before
  is to register the peer as a failed reducer, once. Unless the stream itself raised (or no
  number of parts is known for the peer), the exception is \<^verbatim>\<open>AllreduceException\<close>.
\<close>

theorem communicate_with_peer_escalates:
  assumes "peer \<noteq> peer_id r"
    and "list_index (ordered_peer_ids r) peer = Inr peer_index"
    and "(\<exists>msg. Message msg \<in> set replies \<and> code msg \<noteq> AVERAGED_PART) \<or>
         length [msg. Message msg \<leftarrow> replies] \<noteq> num_parts_by_peer r ! peer_index"
  shows "\<exists>e more.
           communicate_with_peer accumulate_part (Inr replies) r peer =
             (Some e, r\<lparr>runner_calls := runner_calls r @ more @ [RegisterFailedReducer peer_index]\<rparr>) \<and>
           RegisterFailedReducer peer_index \<notin> set more \<and>
           ((\<forall>e'. StreamRaises e' \<notin> set replies) \<and> peer_index < length (num_parts_by_peer r)
              \<longrightarrow> e = AllreduceException)"
proof -
  obtain res calls where rp: "receive_parts peer_index 0 replies (runner_calls r) = (res, calls)"
    by (cases "receive_parts peer_index 0 replies (runner_calls r)") auto
  from receive_parts_extends[OF rp] obtain more where
    more: "calls = runner_calls r @ more" "RegisterFailedReducer peer_index \<notin> set more"
    by blast
  show ?thesis
  proof (cases res)
    case (Inl e)
    have "communicate_with_peer accumulate_part (Inr replies) r peer =
            (Some e, r\<lparr>runner_calls := runner_calls r @ more @ [RegisterFailedReducer peer_index]\<rparr>)"
      using assms(1,2) rp Inl more(1) by (simp add: communicate_with_peer_def)
    moreover have "(\<forall>e'. StreamRaises e' \<notin> set replies) \<longrightarrow> e = AllreduceException"
      using receive_parts_raises rp Inl by blast
    ultimately show ?thesis using more(2) by blast
  next
    case (Inr n)
    from receive_parts_counts[OF rp[unfolded Inr]]
    have n: "n = length [msg. Message msg \<leftarrow> replies]"
      and ok: "\<forall>msg. Message msg \<in> set replies \<longrightarrow> code msg = AVERAGED_PART"
      by auto
    from assms(3) ok n have ne: "n \<noteq> num_parts_by_peer r ! peer_index" by auto
    let ?e = "if peer_index < length (num_parts_by_peer r) then AllreduceException else IndexError"
    have "communicate_with_peer accumulate_part (Inr replies) r peer =
            (Some ?e, r\<lparr>runner_calls := runner_calls r @ more @ [RegisterFailedReducer peer_index]\<rparr>)"
      using assms(1,2) rp Inr more(1) ne by (simp add: communicate_with_peer_def)
    then show ?thesis using more(2) by auto
  qed
qed

theorem communicate_with_peer_escalates_witness:
  "communicate_with_peer (\<lambda>s p t. Inr t)
     (Inr [Message \<lparr>code = AVERAGED_PART, delta = 1\<rparr>, Message \<lparr>code = INTERNAL_ERROR, delta = 0\<rparr>])
     example_runner 1 =
     (Some AllreduceException,
      example_runner\<lparr>runner_calls := [RegisterProcessedPart 1 0 1, RegisterFailedReducer 1]\<rparr>) \<and>
   communicate_with_peer (\<lambda>s p t. Inr t) (Inr [Message \<lparr>code = AVERAGED_PART, delta = 1\<rparr>])
     example_runner 1 =
     (Some AllreduceException,
      example_runner\<lparr>runner_calls := [RegisterProcessedPart 1 0 1, RegisterFailedReducer 1]\<rparr>)"
proof -
  let ?bad = "[Message \<lparr>code = AVERAGED_PART, delta = 1::real\<rparr>,
               Message \<lparr>code = INTERNAL_ERROR, delta = 0\<rparr>]"
  let ?short = "[Message \<lparr>code = AVERAGED_PART, delta = 1::real\<rparr>]"
  let ?acc = "\<lambda>(s::nat) (p::nat) (t::real). (Inr t :: exc + real)"
  have h1: "(1::nat) \<noteq> peer_id example_runner"
    and h2: "list_index (ordered_peer_ids example_runner) (1::nat) = Inr 1"
    by (simp_all add: example_runner_def)
  have h3: "(\<exists>msg. Message msg \<in> set ?bad \<and> code msg \<noteq> AVERAGED_PART) \<or>
         length [msg. Message msg \<leftarrow> ?bad] \<noteq> num_parts_by_peer example_runner ! 1"
    by (rule disjI1, rule exI[of _ "\<lparr>code = INTERNAL_ERROR, delta = 0\<rparr>"]) simp
  have h4: "(\<exists>msg. Message msg \<in> set ?short \<and> code msg \<noteq> AVERAGED_PART) \<or>
         length [msg. Message msg \<leftarrow> ?short] \<noteq> num_parts_by_peer example_runner ! 1"
    by (simp add: example_runner_def)
  have r1: "communicate_with_peer ?acc (Inr ?bad) example_runner 1 =
      (Some AllreduceException,
       example_runner\<lparr>runner_calls := [RegisterProcessedPart 1 0 1, RegisterFailedReducer 1]\<rparr>)"
    using communicate_with_peer_escalates[OF h1 h2 h3, of ?acc]
    by (simp add: communicate_with_peer_def example_runner_def)
  have r2: "communicate_with_peer ?acc (Inr ?short) example_runner 1 =
      (Some AllreduceException,
       example_runner\<lparr>runner_calls := [RegisterProcessedPart 1 0 1, RegisterFailedReducer 1]\<rparr>)"
    using communicate_with_peer_escalates[OF h1 h2 h4, of ?acc]
    by (simp add: communicate_with_peer_def example_runner_def)
  from r1 r2 show ?thesis by blast
qed

section \<open>Properties of _aggregate_with_group\<close>

lemma apply_updates_all:
  "length updates = length tensors \<Longrightarrow>
   apply_updates alpha tensors (map Update updates) =
     (None, map2 (\<lambda>t u. t + alpha *\<^sub>R u) tensors updates)"
proof (induction tensors arbitrary: updates)
  case Nil
  then show ?case by simp
next
  case (Cons t tensors)
  then obtain u us where "updates = u # us" "length us = length tensors"
    by (cases updates) auto
  with Cons.IH[of us] show ?case by simp
qed

lemma aggregate_with_group_reached:
  assumes "gathered grp \<noteq> []"
    and "averaging_modes (map (\<lambda>(bandwidth, mode_id, user). mode_id) (gathered grp)) = Inr modes"
    and "load_balance_peers
           (map2 (\<lambda>(thr, mode_id, user) mode. if mode \<noteq> CLIENT then thr else 0)
              (gathered grp) modes) = Inr fractions"
    and "make_runner fractions = Inr run"
    and "list_index (peer_ids grp) (averager_peer_id av) = Inr i"
    and "i < length (run_modes run)"
  shows "aggregate_with_group load_balance_peers make_runner av grp =
     (case (if run_modes run ! i \<noteq> AUX
            then (case apply_updates (averaging_alpha av) (local_tensors av) (run_outputs run) of
                    (raised, tensors) \<Rightarrow> (raised, av\<lparr>local_tensors := tensors\<rparr>))
            else (refuse_updates (run_outputs run), av)) of
        (Some e, av') \<Rightarrow> (Inl MatchmakingException, av')
      | (None, av') \<Rightarrow> (Inr grp, av'))"
  using assms by (simp add: aggregate_with_group_def)

lemma aggregate_with_group_changes:
  assumes "local_tensors (snd (aggregate_with_group load_balance_peers make_runner av grp)) \<noteq>
           local_tensors av"
  shows "\<exists>fractions run i. make_runner fractions = Inr run \<and>
           list_index (peer_ids grp) (averager_peer_id av) = Inr i \<and>
           i < length (run_modes run) \<and> run_modes run ! i \<noteq> AUX"
proof (rule ccontr)
  assume no: "\<not> ?thesis"
  have "snd (aggregate_with_group load_balance_peers make_runner av grp) = av"
  proof (cases "gathered grp = []")
    case True
    then show ?thesis by (simp add: aggregate_with_group_def)
  next
    case False
    note g = this
    show ?thesis
    proof (cases "averaging_modes (map (\<lambda>(bandwidth, mode_id, user). mode_id) (gathered grp))")
      case (Inl e)
      with g show ?thesis by (simp add: aggregate_with_group_def)
    next
      case (Inr modes)
      note m = this
      show ?thesis
      proof (cases "load_balance_peers
           (map2 (\<lambda>(thr, mode_id, user) mode. if mode \<noteq> CLIENT then thr else 0)
              (gathered grp) modes)")
        case (Inl e)
        with g m show ?thesis by (simp add: aggregate_with_group_def)
      next
        case (Inr fractions)
        note f = this
        show ?thesis
        proof (cases "make_runner fractions")
          case (Inl e)
          with g m f show ?thesis by (simp add: aggregate_with_group_def)
        next
          case (Inr run)
          note r = this
          show ?thesis
          proof (cases "list_index (peer_ids grp) (averager_peer_id av)")
            case (Inl e)
            with g m f r show ?thesis by (simp add: aggregate_with_group_def)
          next
            case (Inr i)
            show ?thesis
            proof (cases "i < length (run_modes run)")
              case False
              with g m f r Inr show ?thesis by (simp add: aggregate_with_group_def)
            next
              case True
              with no r Inr have aux: "run_modes run ! i = AUX" by blast
              show ?thesis
                using g m f r Inr True aux
                by (simp add: aggregate_with_group_def split: option.splits)
            qed
          qed
        qed
      qed
    qed
  qed
  with assms show False by simp
qed

lemma default_modes_never_aux:
  "i < length fractions \<Longrightarrow> default_modes fractions ! i \<noteq> AUX"
  by (simp add: default_modes_def)

text \<open>
  C5, at a failing input: the own peer declared the mode \<open>AUX\<close> when the group was formed,
  the load balancer gives both peers the fraction 1/2, and the runner yields the updates 3
  and 4. The runner was built without the declared modes and lists the own peer as
  \<open>NODE\<close>, so the branch that refuses updates is not taken: the updates are added to the
  tensors 1 and 2 of the auxiliary peer, which become 4 and 6, and the call returns the
  group without raising.
\<close>

theorem aux_peer_gets_update:
  "averaging_modes (map (\<lambda>(bandwidth, mode_id, user). mode_id) (gathered aux_group)) =
     Inr [AUX, NODE] \<and>
   list_index (peer_ids aux_group) (averager_peer_id example_peer) = Inr 0 \<and>
   aggregate_with_group (\<lambda>bandwidths. Inr [1 / 2, 1 / 2]) (runner_yielding [3, 4])
     example_peer aux_group =
     (Inr aux_group, example_peer\<lparr>local_tensors := [4, 6]\<rparr>)"
  by (simp add: aggregate_with_group_def aux_group_def example_peer_def runner_yielding_def
      default_modes_def averaging_mode_of_def)

section \<open>Properties of _step_custom\<close>

text \<open>
  The invariant of a handle: a terminal state was written exactly if the step is done, and
  then once; and no \<^verbatim>\<open>set_exception\<close> was ever refused.
\<close>

lemma set_result_keeps:
  assumes "resolutions c = (if is_done c then 1 else 0)" and "SetException \<notin> set (rejected c)"
  shows "resolutions (snd (set_result ise v c)) = 1"
    and "is_done (snd (set_result ise v c))"
    and "SetException \<notin> set (rejected (snd (set_result ise v c)))"
    and "allow_retries (snd (set_result ise v c)) = allow_retries c"
    and "is_done c \<longrightarrow> future (snd (set_result ise v c)) = future c"
    and "fst (set_result ise v c) = None \<longleftrightarrow> \<not> is_done c"
  using assms by (auto simp: set_result_def is_done_def)

lemma set_exception_pending:
  assumes "resolutions c = (if is_done c then 1 else 0)" and "\<not> is_done c"
  shows "set_exception ise e c = (None, c\<lparr>future := Failed e, resolutions := 1\<rparr>)"
  using assms by (simp add: set_exception_def)

lemma owner_cancel_keeps:
  assumes "resolutions c = (if is_done c then 1 else 0)"
  shows "resolutions (owner_cancel c) = 1"
    and "is_done (owner_cancel c)"
    and "rejected (owner_cancel c) = rejected c"
    and "allow_retries (owner_cancel c) = allow_retries c"
    and "is_done c \<longrightarrow> future (owner_cancel c) = future c"
  using assms by (auto simp: owner_cancel_def is_done_def)

lemma meanwhile_keeps:
  assumes "resolutions c = (if is_done c then 1 else 0)"
  shows "resolutions (meanwhile a c) = (if is_done (meanwhile a c) then 1 else 0)"
    and "rejected (meanwhile a c) = rejected c"
    and "allow_retries (meanwhile a c) = allow_retries c"
    and "is_done c \<longrightarrow> future (meanwhile a c) = future c"
  using assms owner_cancel_keeps[OF assms] by (auto simp: meanwhile_def)

lemma raise_in_loop_keeps:
  assumes "resolutions c = (if is_done c then 1 else 0)" and "SetException \<notin> set (rejected c)"
  shows "resolutions (snd (raise_in_loop ise e l c)) =
           (if is_done (snd (raise_in_loop ise e l c)) then 1 else 0)"
    and "SetException \<notin> set (rejected (snd (raise_in_loop ise e l c)))"
    and "allow_retries (snd (raise_in_loop ise e l c)) = allow_retries c"
    and "is_done c \<longrightarrow> future (snd (raise_in_loop ise e l c)) = future c"
    and "fst (raise_in_loop ise e l c) = None \<and> \<not> allow_retries c \<longrightarrow>
           is_done (snd (raise_in_loop ise e l c))"
  using assms
  by (auto simp: raise_in_loop_def handle_failure_def set_exception_def is_done_def)

lemma stage_keeps:
  "is_done (c\<lparr>stage := s\<rparr>) = is_done c"
  "resolutions (c\<lparr>stage := s\<rparr>) = resolutions c"
  "rejected (c\<lparr>stage := s\<rparr>) = rejected c"
  "allow_retries (c\<lparr>stage := s\<rparr>) = allow_retries c"
  "future (c\<lparr>stage := s\<rparr>) = future c"
  by (simp_all add: is_done_def)

lemma attempt_once_keeps:
  assumes "resolutions c = (if is_done c then 1 else 0)" and "SetException \<notin> set (rejected c)"
  shows "resolutions (snd (attempt_once ise a c)) =
           (if is_done (snd (attempt_once ise a c)) then 1 else 0)"
    and "SetException \<notin> set (rejected (snd (attempt_once ise a c)))"
    and "allow_retries (snd (attempt_once ise a c)) = allow_retries c"
    and "fst (attempt_once ise a c) = None \<and> \<not> allow_retries c \<longrightarrow>
           is_done (snd (attempt_once ise a c))"
proof -
  let ?c = "c\<lparr>stage := LOOKING_FOR_GROUP\<rparr>"
  let ?r = "c\<lparr>stage := LOOKING_FOR_GROUP, stage := RUNNING_ALLREDUCE\<rparr>"
  have i0: "resolutions ?c = (if is_done ?c then 1 else 0)" "SetException \<notin> set (rejected ?c)"
    "resolutions ?r = (if is_done ?r then 1 else 0)" "SetException \<notin> set (rejected ?r)"
    using assms by (simp_all add: is_done_def)
  have ar: "allow_retries ?c = allow_retries c" "allow_retries ?r = allow_retries c" by simp_all
  note oc = owner_cancel_keeps[OF i0(1)]
  note mc = meanwhile_keeps[OF i0(1), of a]
  note mr = meanwhile_keeps[OF i0(3), of a]
  have mcr: "SetException \<notin> set (rejected (meanwhile a ?c))"
    "SetException \<notin> set (rejected (meanwhile a ?r))"
    using mc(2) mr(2) i0 by simp_all
  have ocr: "resolutions (owner_cancel ?c) = (if is_done (owner_cancel ?c) then 1 else 0)"
    "SetException \<notin> set (rejected (owner_cancel ?c))"
    using oc i0 by simp_all
  show "resolutions (snd (attempt_once ise a c)) =
           (if is_done (snd (attempt_once ise a c)) then 1 else 0)"
  proof (cases "body a")
    case CancelSeen
    then show ?thesis using raise_in_loop_keeps(1)[OF ocr] by (simp add: attempt_once_def)
  next
    case (MatchmakingRaised e)
    then show ?thesis using raise_in_loop_keeps(1)[OF mc(1) mcr(1)] by (simp add: attempt_once_def)
  next
    case NoGroup
    then show ?thesis using raise_in_loop_keeps(1)[OF mc(1) mcr(1)] by (simp add: attempt_once_def)
  next
    case (AllreduceRaised e)
    then show ?thesis using raise_in_loop_keeps(1)[OF mr(1) mcr(2)] by (simp add: attempt_once_def)
  next
    case (AllreduceReturned g)
    obtain r c' where sr: "set_result ise g (meanwhile a ?r) = (r, c')"
      by (cases "set_result ise g (meanwhile a ?r)") auto
    note k = set_result_keeps[OF mr(1) mcr(2), of ise g, unfolded sr]
    have c': "resolutions c' = (if is_done c' then 1 else 0)" "SetException \<notin> set (rejected c')"
      using k by simp_all
    show ?thesis
      using AllreduceReturned sr c' raise_in_loop_keeps(1)[OF c']
      by (cases r) (simp_all add: attempt_once_def)
  qed
  show "SetException \<notin> set (rejected (snd (attempt_once ise a c)))"
  proof (cases "body a")
    case CancelSeen
    then show ?thesis using raise_in_loop_keeps(2)[OF ocr] by (simp add: attempt_once_def)
  next
    case (MatchmakingRaised e)
    then show ?thesis using raise_in_loop_keeps(2)[OF mc(1) mcr(1)] by (simp add: attempt_once_def)
  next
    case NoGroup
    then show ?thesis using raise_in_loop_keeps(2)[OF mc(1) mcr(1)] by (simp add: attempt_once_def)
  next
    case (AllreduceRaised e)
    then show ?thesis using raise_in_loop_keeps(2)[OF mr(1) mcr(2)] by (simp add: attempt_once_def)
  next
    case (AllreduceReturned g)
    obtain r c' where sr: "set_result ise g (meanwhile a ?r) = (r, c')"
      by (cases "set_result ise g (meanwhile a ?r)") auto
    note k = set_result_keeps[OF mr(1) mcr(2), of ise g, unfolded sr]
    have c': "resolutions c' = (if is_done c' then 1 else 0)" "SetException \<notin> set (rejected c')"
      using k by simp_all
    show ?thesis
      using AllreduceReturned sr c' raise_in_loop_keeps(2)[OF c']
      by (cases r) (simp_all add: attempt_once_def)
  qed
  show "allow_retries (snd (attempt_once ise a c)) = allow_retries c"
  proof (cases "body a")
    case CancelSeen
    then show ?thesis using raise_in_loop_keeps(3)[OF ocr] oc(4)
      by (simp add: attempt_once_def)
  next
    case (MatchmakingRaised e)
    then show ?thesis using raise_in_loop_keeps(3)[OF mc(1) mcr(1)] mc(3)
      by (simp add: attempt_once_def)
  next
    case NoGroup
    then show ?thesis using raise_in_loop_keeps(3)[OF mc(1) mcr(1)] mc(3)
      by (simp add: attempt_once_def)
  next
    case (AllreduceRaised e)
    then show ?thesis using raise_in_loop_keeps(3)[OF mr(1) mcr(2)] mr(3)
      by (simp add: attempt_once_def)
  next
    case (AllreduceReturned g)
    obtain r c' where sr: "set_result ise g (meanwhile a ?r) = (r, c')"
      by (cases "set_result ise g (meanwhile a ?r)") auto
    note k = set_result_keeps[OF mr(1) mcr(2), of ise g, unfolded sr]
    have c': "resolutions c' = (if is_done c' then 1 else 0)" "SetException \<notin> set (rejected c')"
      "allow_retries c' = allow_retries c"
      using k mr(3) by simp_all
    show ?thesis
      using AllreduceReturned sr c' raise_in_loop_keeps(3)[OF c'(1,2)]
      by (cases r) (simp_all add: attempt_once_def)
  qed
  show "fst (attempt_once ise a c) = None \<and> \<not> allow_retries c \<longrightarrow>
           is_done (snd (attempt_once ise a c))"
  proof (cases "body a")
    case CancelSeen
    then show ?thesis using raise_in_loop_keeps(5)[OF ocr] oc(4)
      by (simp add: attempt_once_def)
  next
    case (MatchmakingRaised e)
    then show ?thesis using raise_in_loop_keeps(5)[OF mc(1) mcr(1)] mc(3)
      by (simp add: attempt_once_def)
  next
    case NoGroup
    then show ?thesis using raise_in_loop_keeps(5)[OF mc(1) mcr(1)] mc(3)
      by (simp add: attempt_once_def)
  next
    case (AllreduceRaised e)
    then show ?thesis using raise_in_loop_keeps(5)[OF mr(1) mcr(2)] mr(3)
      by (simp add: attempt_once_def)
  next
    case (AllreduceReturned g)
    obtain r c' where sr: "set_result ise g (meanwhile a ?r) = (r, c')"
      by (cases "set_result ise g (meanwhile a ?r)") auto
    note k = set_result_keeps[OF mr(1) mcr(2), of ise g, unfolded sr]
    have c': "resolutions c' = (if is_done c' then 1 else 0)" "SetException \<notin> set (rejected c')"
      "allow_retries c' = allow_retries c" "is_done c'"
      using k mr(3) by simp_all
    show ?thesis
      using AllreduceReturned sr c' raise_in_loop_keeps(5)[OF c'(1,2)]
      by (cases r) (simp_all add: attempt_once_def)
  qed
qed

lemma step_loop_keeps:
  assumes "resolutions c = (if is_done c then 1 else 0)" and "SetException \<notin> set (rejected c)"
    and "step_loop ise attempts c = Some (raised, c')"
  shows "resolutions c' = (if is_done c' then 1 else 0) \<and> SetException \<notin> set (rejected c') \<and>
         (raised = None \<longrightarrow> is_done c') \<and> (is_done c \<longrightarrow> c' = c)"
  using assms
proof (induction attempts arbitrary: c)
  case Nil
  then show ?case by (auto split: if_splits)
next
  case (Cons a attempts)
  show ?case
  proof (cases "is_done c")
    case True
    with Cons.prems show ?thesis by auto
  next
    case False
    obtain r c1 where ao: "attempt_once ise a c = (r, c1)"
      by (cases "attempt_once ise a c") auto
    note k = attempt_once_keeps[OF Cons.prems(1,2), of ise a, unfolded ao]
    show ?thesis
    proof (cases r)
      case (Some e)
      with Cons.prems(3) False ao k show ?thesis by auto
    next
      case None
      with Cons.prems(3) False ao have "step_loop ise attempts c1 = Some (raised, c')" by simp
      from Cons.IH[OF _ _ this] k False show ?thesis by simp
    qed
  qed
qed

lemma step_loop_returns:
  assumes "resolutions c = (if is_done c then 1 else 0)" and "SetException \<notin> set (rejected c)"
    and "\<not> allow_retries c" and "attempts \<noteq> []"
  shows "\<exists>res. step_loop ise attempts c = Some res"
proof -
  obtain a rest where at: "attempts = a # rest" using assms(4) by (cases attempts) auto
  show ?thesis
  proof (cases "is_done c")
    case True
    then show ?thesis by (simp add: at)
  next
    case False
    obtain r c1 where ao: "attempt_once ise a c = (r, c1)"
      by (cases "attempt_once ise a c") auto
    note k = attempt_once_keeps[OF assms(1,2), of ise a, unfolded ao]
    show ?thesis
    proof (cases r)
      case (Some e)
      with False ao at show ?thesis by simp
    next
      case None
      with k(4) assms(3) have "is_done c1" by simp
      then have "step_loop ise rest c1 = Some (None, c1)" by (cases rest) simp_all
      with False ao None at show ?thesis by simp
    qed
  qed
qed

lemma attach_keeps:
  assumes "attach c = Inr c1"
  shows "is_done c1 = is_done c" and "resolutions c1 = resolutions c"
    and "rejected c1 = rejected c" and "allow_retries c1 = allow_retries c"
    and "future c1 = future c"
  using assms by (auto simp: attach_def is_done_def split: option.splits)

text \<open>
  C7, as the code has it. Take a handle on which a terminal state was written exactly if it
  is done, and on which no \<^verbatim>\<open>set_exception\<close> was refused (a fresh handle, or one its owner
  has cancelled already). Whenever \<^verbatim>\<open>_step_custom\<close> ends, by returning or by raising, the
  step is done, a terminal state was written exactly once, the stage is \<open>FINISHED\<close>, a
  state that was terminal at the start is still the same, and no \<^verbatim>\<open>set_exception\<close> was
  called on a step that was done. Without retries the coroutine ends after the first pass
  at the latest.
\<close>

theorem step_resolved_exactly_once:
  assumes "resolutions c = (if is_done c then 1 else 0)" and "SetException \<notin> set (rejected c)"
  shows "(step_custom ise init_done attempts c = Some (raised, c') \<longrightarrow>
            is_done c' \<and> resolutions c' = 1 \<and> stage c' = FINISHED \<and>
            SetException \<notin> set (rejected c') \<and> (is_done c \<longrightarrow> future c' = future c)) \<and>
         (attempts \<noteq> [] \<and> \<not> allow_retries c \<longrightarrow>
            (\<exists>res. step_custom ise init_done attempts c = Some res))"
proof -
  have ends: "is_done c' \<and> resolutions c' = 1 \<and> stage c' = FINISHED \<and>
            SetException \<notin> set (rejected c') \<and> (is_done c \<longrightarrow> future c' = future c)"
    if run: "step_custom ise init_done attempts c = Some (raised, c')"
  proof -
  define inner where "inner = (case attach c of
              Inl e \<Rightarrow> Some (Some e, c)
            | Inr c1 \<Rightarrow> if init_done then Some (Some ise, c1) else step_loop ise attempts c1)"
  from run obtain r c2 where inner: "inner = Some (r, c2)"
    unfolding step_custom_def inner_def[symmetric] by (cases inner) auto
  have c2: "resolutions c2 = (if is_done c2 then 1 else 0) \<and> SetException \<notin> set (rejected c2) \<and>
            (r = None \<longrightarrow> is_done c2) \<and> (is_done c \<longrightarrow> future c2 = future c)"
  proof (cases "attach c")
    case (Inl e)
    with inner assms show ?thesis by (auto simp: inner_def)
  next
    case (Inr c1)
    note ak = attach_keeps[OF Inr]
    have c1: "resolutions c1 = (if is_done c1 then 1 else 0)" "SetException \<notin> set (rejected c1)"
      using ak assms by simp_all
    show ?thesis
    proof (cases init_done)
      case True
      with inner Inr c1 ak show ?thesis by (auto simp: inner_def)
    next
      case False
      with inner Inr have "step_loop ise attempts c1 = Some (r, c2)" by (simp add: inner_def)
      from step_loop_keeps[OF c1 this] ak show ?thesis by auto
    qed
  qed
  define c3 where "c3 = (case r of None \<Rightarrow> c2
                     | Some e \<Rightarrow> if \<not> is_done c2 then snd (set_exception ise e c2) else c2)"
  have c3: "is_done c3 \<and> resolutions c3 = 1 \<and> SetException \<notin> set (rejected c3) \<and>
            (is_done c \<longrightarrow> future c3 = future c)"
  proof (cases r)
    case None
    with c2 show ?thesis by (simp add: c3_def)
  next
    case (Some e)
    show ?thesis
    proof (cases "is_done c2")
      case True
      with c2 Some show ?thesis by (simp add: c3_def)
    next
      case False
      have "is_done c \<longrightarrow> is_done c2" using c2 by (auto simp: is_done_def)
      with False have "\<not> is_done c" by blast
      moreover have "c3 = c2\<lparr>future := Failed e, resolutions := 1\<rparr>"
        using set_exception_pending[of c2 ise e] c2 False Some by (simp add: c3_def)
      ultimately show ?thesis using c2 by (simp add: is_done_def)
    qed
  qed
  have "step_custom ise init_done attempts c =
          Some (r, if \<not> is_done (c3\<lparr>stage := FINISHED\<rparr>)
                   then snd (set_exception ise RuntimeError (c3\<lparr>stage := FINISHED\<rparr>))
                   else c3\<lparr>stage := FINISHED\<rparr>)"
    unfolding step_custom_def inner_def[symmetric] inner c3_def by (simp add: Let_def)
  with run c3 have fin: "c' = c3\<lparr>stage := FINISHED\<rparr>"
    by (simp add: stage_keeps)
  with c3 show ?thesis
    by (simp add: is_done_def)
  qed
  have returns: "\<exists>res. step_custom ise init_done attempts c = Some res"
    if a: "attempts \<noteq> [] \<and> \<not> allow_retries c"
  proof -
  have "\<exists>res. (case attach c of
              Inl e \<Rightarrow> Some (Some e, c)
            | Inr c1 \<Rightarrow> if init_done then Some (Some ise, c1) else step_loop ise attempts c1)
          = Some res"
  proof (cases "attach c")
    case (Inl e)
    then show ?thesis by simp
  next
    case (Inr c1)
    note ak = attach_keeps[OF Inr]
    have c1: "resolutions c1 = (if is_done c1 then 1 else 0)" "SetException \<notin> set (rejected c1)"
      "\<not> allow_retries c1"
      using ak assms a by simp_all
    from step_loop_returns[OF c1] a Inr show ?thesis by simp
  qed
  then obtain res where "(case attach c of
              Inl e \<Rightarrow> Some (Some e, c)
            | Inr c1 \<Rightarrow> if init_done then Some (Some ise, c1) else step_loop ise attempts c1)
          = Some res" by blast
  then show ?thesis
    by (cases res) (simp add: step_custom_def Let_def)
  qed
  from ends returns show ?thesis by blast
qed

theorem step_resolved_exactly_once_witness:
  "step_custom FutureInvalidStateError False
     [\<lparr>body = NoGroup, cancelled_meanwhile = False, late = False\<rparr>,
      \<lparr>body = AllreduceRaised P2PDaemonError, cancelled_meanwhile = False, late = True\<rparr>]
     (fresh_step :: unit step_control) =
     Some (None, fresh_step\<lparr>future := Failed P2PDaemonError, trigger := Some False,
                            stage := FINISHED, resolutions := 1\<rparr>) \<and>
   is_done (fresh_step\<lparr>future := Failed P2PDaemonError, trigger := Some False,
                       stage := FINISHED, resolutions := 1\<rparr> :: unit step_control)"
proof -
  let ?as = "[\<lparr>body = NoGroup, cancelled_meanwhile = False, late = False\<rparr>,
      \<lparr>body = AllreduceRaised P2PDaemonError, cancelled_meanwhile = False, late = True\<rparr>]
      :: unit attempt list"
  let ?c' = "fresh_step\<lparr>future := Failed P2PDaemonError, trigger := Some False,
                       stage := FINISHED, resolutions := 1\<rparr> :: unit step_control"
  have h1: "resolutions (fresh_step :: unit step_control) =
              (if is_done (fresh_step :: unit step_control) then 1 else 0)"
    and h2: "SetException \<notin> set (rejected (fresh_step :: unit step_control))"
    by (simp_all add: fresh_step_def is_done_def)
  have run: "step_custom FutureInvalidStateError False ?as fresh_step = Some (None, ?c')"
    by (simp add: step_custom_def attach_def fresh_step_def is_done_def attempt_once_def
        raise_in_loop_def caught_in_loop_def handle_failure_def meanwhile_def set_exception_def)
  from step_resolved_exactly_once[OF h1 h2, of FutureInvalidStateError False ?as None ?c'] run
  show ?thesis by blast
qed

text \<open>
  C7 as the specification words it fails in one point: \<^verbatim>\<open>set_result\<close> is called on a step
  that is done already. When the owner cancels the step while the all-reduce runs and the
  all-reduce returns, the call of \<^verbatim>\<open>step.set_result\<close> finds the step cancelled; the future
  refuses it, and the step stays cancelled. This holds whichever class the refusal raises.
\<close>

theorem set_result_called_on_cancelled_step:
  "step_custom InvalidStateError False
     [\<lparr>body = AllreduceReturned (), cancelled_meanwhile = True, late = False\<rparr>] fresh_step =
     Some (None, fresh_step\<lparr>future := Cancelled, trigger := Some True, stage := FINISHED,
                            resolutions := 1, rejected := [SetResult]\<rparr>) \<and>
   step_custom FutureInvalidStateError False
     [\<lparr>body = AllreduceReturned (), cancelled_meanwhile = True, late = False\<rparr>] fresh_step =
     Some (Some FutureInvalidStateError,
           fresh_step\<lparr>future := Cancelled, trigger := Some True, stage := FINISHED,
                      resolutions := 1, rejected := [SetResult]\<rparr>)"
  by (simp add: step_custom_def attach_def fresh_step_def is_done_def attempt_once_def
      raise_in_loop_def caught_in_loop_def handle_failure_def meanwhile_def set_result_def
      owner_cancel_def)

end
